theory Spec2Isabelle
  imports Complex_Main "HOL-Library.Sublist"
begin

chapter \<open>The automation core of the platform-operations toolkit\<close>

text \<open>
  A shallow embedding of the automation modules (NotificationService, DeploymentAutomation,
  CleanupService, HealthMonitor, DatabaseBackup, ReportGenerator and the scheduler of
  \<^verbatim>\<open>automation/index.js\<close>). Mutable module state is a record that every operation takes and
  returns; a thrown \<^verbatim>\<open>Error\<close> is the \<open>Inl\<close> branch of a sum; whatever the code asks of the
  outside world (the clock, the network, the file system, child processes) is an explicit
  environment argument, so that every outcome the code can observe is an input of the model.
\<close>

section \<open>Errors\<close>

text \<open>
  One constructor per \<^verbatim>\<open>throw new Error(...)\<close> site of the modules, carrying what the
  message interpolates. \<open>ExternalError\<close> is an error raised by a library the code calls
  (mail transport, chat client, cloud SDK, file system), with its message; \<open>TypeError\<close> is the
  JavaScript runtime's own error for a property read on \<^verbatim>\<open>undefined\<close> or a call of an
  undefined method, with the name of that property or method.
\<close>

datatype error =
    NotInitialized string
  | RateLimitExceeded string int
  | ChannelNotConfigured string
  | UnknownChannelType string
  | ExternalError string
  | TypeError string
  | BranchMismatch string string string
  | UncommittedChanges
  | PackageJsonMissing
  | NoBuildScript
  | TestsFailed int
  | BuildFailed int
  | PlatformDeployFailed string int
  | AwsNotImplemented
  | UnsupportedPlatform string
  | UnknownSection string
  | UnsupportedFormat string
  | PdfNotImplemented

section \<open>NotificationService\<close>

subsection \<open>The fixed-window rate limiter\<close>

text \<open>
  One entry of \<^verbatim>\<open>this.rateLimits\<close>:
  \<^verbatim>\<open>{ limit: 10, window: 60 * 1000, count: 0, resetTime: Date.now() }\<close>.
  Times are milliseconds since the epoch.
\<close>

record rate_limit =
  limit :: nat
  window :: int
  count :: nat
  resetTime :: int

type_synonym rate_limits = "string \<rightharpoonup> rate_limit"

text \<open>\<^verbatim>\<open>Math.ceil(a / b)\<close> on integers, for a positive divisor.\<close>

definition ceil_div :: "int \<Rightarrow> int \<Rightarrow> int" where
  "ceil_div a b = - ((- a) div b)"

text \<open>
  \<^verbatim>\<open>
  async checkRateLimit(channel) {
    const limit = this.rateLimits[channel];
    if (!limit) return;
    const now = Date.now();
    if (now > limit.resetTime) {
      limit.count = 0;
      limit.resetTime = now + limit.window;
    }
    if (limit.count >= limit.limit) {
      const waitTime = limit.resetTime - now;
      throw new Error(`Rate limit exceeded for ${channel}. Try again in
                       ${Math.ceil(waitTime / 1000)} seconds.`);
    }
    limit.count++;
  }
  \<close>
  \<open>now\<close> is the reading of \<^verbatim>\<open>Date.now()\<close>. The reset is a mutation made before the
  throw, so it is kept in the table that a rejected call returns.
\<close>

definition window_reset :: "int \<Rightarrow> rate_limit \<Rightarrow> rate_limit" where
  "window_reset now l =
     (if now > resetTime l then l\<lparr>count := 0, resetTime := now + window l\<rparr> else l)"

definition checkRateLimit :: "string \<Rightarrow> int \<Rightarrow> rate_limits \<Rightarrow> (error + unit) \<times> rate_limits" where
  "checkRateLimit channel now rl =
     (case rl channel of
        None \<Rightarrow> (Inr (), rl)
      | Some l0 \<Rightarrow>
          let l = window_reset now l0 in
          if count l \<ge> limit l
          then (Inl (RateLimitExceeded channel (ceil_div (resetTime l - now) 1000)), rl(channel \<mapsto> l))
          else (Inr (), rl(channel \<mapsto> l\<lparr>count := count l + 1\<rparr>)))"

text \<open>
  A sequence of sends on one channel: \<open>checkRateLimit\<close> called once per clock reading of the
  list, in order, each call on the table the previous one left.
\<close>

fun checkRateLimit_calls :: "string \<Rightarrow> int list \<Rightarrow> rate_limits \<Rightarrow> (error + unit) list \<times> rate_limits" where
  "checkRateLimit_calls channel [] rl = ([], rl)"
| "checkRateLimit_calls channel (now # nows) rl =
     (let (r, rl1) = checkRateLimit channel now rl;
          (rs, rl2) = checkRateLimit_calls channel nows rl1
      in (r # rs, rl2))"

text \<open>The table of the constructor, created at time \<open>t0\<close>.\<close>

definition initial_rateLimits :: "int \<Rightarrow> rate_limits" where
  "initial_rateLimits t0 =
     [''email'' \<mapsto> \<lparr>limit = 10, window = 60 * 1000, count = 0, resetTime = t0\<rparr>,
      ''slack'' \<mapsto> \<lparr>limit = 20, window = 60 * 1000, count = 0, resetTime = t0\<rparr>,
      ''discord'' \<mapsto> \<lparr>limit = 20, window = 60 * 1000, count = 0, resetTime = t0\<rparr>,
      ''telegram'' \<mapsto> \<lparr>limit = 30, window = 60 * 1000, count = 0, resetTime = t0\<rparr>]"

text \<open>The number of sends a sequence of calls accepted (calls that returned, not thrown).\<close>

definition accepted :: "(error + unit) list \<Rightarrow> nat" where
  "accepted rs = length (filter (\<lambda>r. \<not> isl r) rs)"

subsection \<open>Notifications and the state of the service\<close>

text \<open>
  The \<^verbatim>\<open>status\<close> of a notification is only ever assigned one of four strings:
  \<^verbatim>\<open>'pending'\<close> at creation, then \<^verbatim>\<open>'sent'\<close>, \<^verbatim>\<open>'partial'\<close> or \<^verbatim>\<open>'failed'\<close>.
\<close>

datatype delivery_status = Pending | Sent | Partial | Failed

text \<open>
  One entry of \<^verbatim>\<open>notification.results\<close>: the channel, whether its promise was fulfilled
  or rejected, and the rejection's error (\<^verbatim>\<open>null\<close> when fulfilled).
\<close>

record channel_result =
  cr_channel :: string
  cr_fulfilled :: bool
  cr_error :: "error option"

text \<open>
  The notification object built by \<^verbatim>\<open>sendNotification\<close>. The free-form \<^verbatim>\<open>data\<close> payload is
  only interpolated into message bodies and is left out.
\<close>

record notification =
  n_id :: string
  n_type :: string
  n_title :: string
  n_message :: string
  n_channels :: "string list"
  n_priority :: string
  n_template :: string
  n_timestamp :: int
  n_status :: delivery_status
  n_results :: "channel_result list"
  n_error :: "error option"

text \<open>The options of \<^verbatim>\<open>sendNotification\<close>, after the destructuring defaults.\<close>

record send_options =
  o_type :: string
  o_title :: string
  o_message :: string
  o_channels :: "string list"
  o_priority :: string
  o_template :: string

text \<open>
  The fields of a \<^verbatim>\<open>NotificationService\<close>. \<open>ns_channels\<close> is the \<^verbatim>\<open>Map\<close> of configured
  channels, from the channel's name to its \<^verbatim>\<open>type\<close>; \<open>ns_notificationFile\<close> is the content
  of the current day's \<^verbatim>\<open>notification-YYYY-MM-DD.json\<close> (\<open>None\<close>: no such file yet).
\<close>

record notification_service =
  ns_isInitialized :: bool
  ns_channels :: "string \<rightharpoonup> string"
  ns_notificationHistory :: "notification list"
  ns_rateLimits :: rate_limits
  ns_notificationFile :: "notification list option"

text \<open>
  What one call of \<^verbatim>\<open>sendNotification\<close> reads from outside: the generated id and timestamp,
  the reading of \<^verbatim>\<open>Date.now()\<close> taken for the \<open>k\<close>-th channel by the upfront check
  (\<open>precheckClock\<close>) and by the per-channel check (\<open>sendClock\<close>), the outcome of the transport for
  the \<open>k\<close>-th channel (\<open>None\<close>: delivered, \<open>Some m\<close>: the transport threw with message \<open>m\<close>),
  and whether the file operations of \<^verbatim>\<open>storeNotification\<close> succeed.
\<close>

record notify_env =
  newId :: string
  newTimestamp :: int
  precheckClock :: "nat \<Rightarrow> int"
  sendClock :: "nat \<Rightarrow> int"
  transport :: "nat \<Rightarrow> string option"
  persistOk :: bool

subsection \<open>Sending\<close>

text \<open>
  \<^verbatim>\<open>
  async checkRateLimits(channels) {
    for (const channel of channels) {
      await this.checkRateLimit(channel);
    }
  }
  \<close>
  The first rejection leaves the loop; \<open>k\<close> is the position of the channel in the list.
\<close>

fun checkRateLimits :: "(nat \<Rightarrow> int) \<Rightarrow> nat \<Rightarrow> string list \<Rightarrow> rate_limits \<Rightarrow> (error + unit) \<times> rate_limits" where
  "checkRateLimits clk k [] rl = (Inr (), rl)"
| "checkRateLimits clk k (c # cs) rl =
     (case checkRateLimit c (clk k) rl of
        (Inl e, rl1) \<Rightarrow> (Inl e, rl1)
      | (Inr u, rl1) \<Rightarrow> checkRateLimits clk (Suc k) cs rl1)"

text \<open>
  \<^verbatim>\<open>
  async sendToChannel(channelName, notification) {
    const channel = this.channels.get(channelName);
    if (!channel) throw new Error(`Channel ${channelName} not configured`);
    await this.checkRateLimit(channelName);
    switch (channel.type) {
      case 'email':    return this.sendEmail(channel, notification);
      case 'slack':    return this.sendSlackMessage(channel, notification);
      case 'discord':  return this.sendDiscordMessage(channel, notification);
      case 'telegram': return this.sendTelegramMessage(channel, notification);
      default: throw new Error(`Unknown channel type: ${channel.type}`);
    }
  }
  \<close>
  The four senders format the message and hand it to the transport, whose outcome is the
  environment's.
\<close>

definition sendToChannel :: "notify_env \<Rightarrow> nat \<Rightarrow> string \<Rightarrow> (string \<rightharpoonup> string) \<Rightarrow> rate_limits \<Rightarrow> (error + unit) \<times> rate_limits" where
  "sendToChannel env k channelName chans rl =
     (case chans channelName of
        None \<Rightarrow> (Inl (ChannelNotConfigured channelName), rl)
      | Some ty \<Rightarrow>
          (case checkRateLimit channelName (sendClock env k) rl of
             (Inl e, rl1) \<Rightarrow> (Inl e, rl1)
           | (Inr u, rl1) \<Rightarrow>
               (if ty = ''email'' \<or> ty = ''slack'' \<or> ty = ''discord'' \<or> ty = ''telegram''
                then (case transport env k of None \<Rightarrow> Inr () | Some m \<Rightarrow> Inl (ExternalError m))
                else Inl (UnknownChannelType ty),
                rl1)))"

text \<open>
  \<^verbatim>\<open>Promise.allSettled(channels.map(channel => this.sendToChannel(channel, notification)))\<close>:
  every channel is tried, none of the rejections is thrown, and the settled results come back
  in the order of the channels. The rate-limit check of each call runs before the call's first
  suspension, hence in the order of the list.
\<close>

fun sendToChannels :: "notify_env \<Rightarrow> nat \<Rightarrow> string list \<Rightarrow> (string \<rightharpoonup> string) \<Rightarrow> rate_limits \<Rightarrow> (error + unit) list \<times> rate_limits" where
  "sendToChannels env k [] chans rl = ([], rl)"
| "sendToChannels env k (c # cs) chans rl =
     (let (r, rl1) = sendToChannel env k c chans rl;
          (rs, rl2) = sendToChannels env (Suc k) cs chans rl1
      in (r # rs, rl2))"

text \<open>
  \<^verbatim>\<open>
  async storeNotification(notification) {
    this.notificationHistory.push(notification);
    if (this.notificationHistory.length > 1000) this.notificationHistory.shift();
    try { ... notifications.push(notification); await fs.writeJson(filePath, notifications) }
    catch (error) { this.logger.warn('Failed to save notification:', error.message); }
  }
  \<close>
\<close>

definition push_capped :: "nat \<Rightarrow> 'a list \<Rightarrow> 'a \<Rightarrow> 'a list" where
  "push_capped cap xs x = (let h = xs @ [x] in if length h > cap then tl h else h)"

definition storeNotification :: "notify_env \<Rightarrow> notification \<Rightarrow> notification_service \<Rightarrow> notification_service" where
  "storeNotification env n s =
     s\<lparr>ns_notificationHistory := push_capped 1000 (ns_notificationHistory s) n,
       ns_notificationFile :=
         (if persistOk env
          then Some ((case ns_notificationFile s of None \<Rightarrow> [] | Some ns \<Rightarrow> ns) @ [n])
          else ns_notificationFile s)\<rparr>"

text \<open>
  \<^verbatim>\<open>
  notification.status = failed === 0 ? 'sent'
                      : failed === channels.length ? 'failed' : 'partial';
  notification.results = results.map((result, index) => ({
    channel: channels[index], status: result.status,
    error: result.status === 'rejected' ? result.reason.message : null }));
  \<close>
\<close>

definition overall_status :: "(error + unit) list \<Rightarrow> nat \<Rightarrow> delivery_status" where
  "overall_status rs n =
     (let failed = length (filter isl rs)
      in if failed = 0 then Sent else if failed = n then Failed else Partial)"

definition settled_result :: "string \<times> (error + unit) \<Rightarrow> channel_result" where
  "settled_result cr =
     (case snd cr of
        Inl e \<Rightarrow> \<lparr>cr_channel = fst cr, cr_fulfilled = False, cr_error = Some e\<rparr>
      | Inr u \<Rightarrow> \<lparr>cr_channel = fst cr, cr_fulfilled = True, cr_error = None\<rparr>)"

text \<open>
  \<^verbatim>\<open>sendNotification\<close> (lines 93 to 157): the initialisation guard, the notification object,
  then inside \<^verbatim>\<open>try\<close> the upfront \<^verbatim>\<open>checkRateLimits\<close>, the settled per-channel sends, the
  status and the store; the \<^verbatim>\<open>catch\<close> marks the notification failed, stores it and rethrows.
\<close>

definition new_notification :: "notify_env \<Rightarrow> send_options \<Rightarrow> notification" where
  "new_notification env opts =
     \<lparr>n_id = newId env, n_type = o_type opts, n_title = o_title opts,
      n_message = o_message opts, n_channels = o_channels opts, n_priority = o_priority opts,
      n_template = o_template opts, n_timestamp = newTimestamp env, n_status = Pending,
      n_results = [], n_error = None\<rparr>"

definition sendNotification :: "notify_env \<Rightarrow> send_options \<Rightarrow> notification_service \<Rightarrow> (error + notification) \<times> notification_service" where
  "sendNotification env opts s =
     (if \<not> ns_isInitialized s then (Inl (NotInitialized ''NotificationService''), s)
      else
        let notification = new_notification env opts;
            channels = o_channels opts
        in case checkRateLimits (precheckClock env) 0 channels (ns_rateLimits s) of
             (Inl e, rl1) \<Rightarrow>
               (Inl e,
                storeNotification env (notification\<lparr>n_status := Failed, n_error := Some e\<rparr>)
                  (s\<lparr>ns_rateLimits := rl1\<rparr>))
           | (Inr u, rl1) \<Rightarrow>
               let (rs, rl2) = sendToChannels env 0 channels (ns_channels s) rl1;
                   sent = notification\<lparr>n_status := overall_status rs (length channels),
                                       n_results := map settled_result (zip channels rs)\<rparr>
               in (Inr sent, storeNotification env sent (s\<lparr>ns_rateLimits := rl2\<rparr>)))"

text \<open>
  \<^verbatim>\<open>
  async sendAlert(options) {
    const { severity = 'medium', ...alertOptions } = options;
    let channels = ['email'];
    if (severity === 'high' || severity === 'critical') {
      if (this.channels.has('slack')) channels.push('slack');
      if (this.channels.has('telegram')) channels.push('telegram');
      if (this.channels.has('discord')) channels.push('discord');
    }
    return this.sendNotification({ ...alertOptions, channels,
      priority: severity === 'critical' ? 'high' : severity === 'high' ? 'normal' : 'low',
      template: 'alert' });
  }
  \<close>
\<close>

record alert_options =
  a_type :: string
  a_title :: string
  a_message :: string
  a_severity :: string

definition alert_channels :: "string \<Rightarrow> (string \<rightharpoonup> string) \<Rightarrow> string list" where
  "alert_channels severity chans =
     [''email''] @
     (if severity = ''high'' \<or> severity = ''critical''
      then (if chans ''slack'' \<noteq> None then [''slack''] else []) @
           (if chans ''telegram'' \<noteq> None then [''telegram''] else []) @
           (if chans ''discord'' \<noteq> None then [''discord''] else [])
      else [])"

definition sendAlert :: "notify_env \<Rightarrow> alert_options \<Rightarrow> notification_service \<Rightarrow> (error + notification) \<times> notification_service" where
  "sendAlert env a s =
     sendNotification env
       \<lparr>o_type = a_type a, o_title = a_title a, o_message = a_message a,
        o_channels = alert_channels (a_severity a) (ns_channels s),
        o_priority = (if a_severity a = ''critical'' then ''high''
                      else if a_severity a = ''high'' then ''normal'' else ''low''),
        o_template = ''alert''\<rparr> s"






section \<open>The scheduler of AutomationSystem\<close>

text \<open>
  A registered job: its cron expression, whether its trigger is running (\<^verbatim>\<open>cron.schedule\<close>
  starts the job it returns; only \<^verbatim>\<open>job.stop()\<close> in \<^verbatim>\<open>stopScheduledTasks\<close> stops it) and
  its handler. A handler is a closure over the modules; of the modules the system keeps the
  notification service here, so a handler is a function on it that also says whether it threw
  (\<open>Some m\<close>: an error with message \<open>m\<close>).
\<close>

record job =
  cronExpression :: string
  running :: bool
  handler :: "notification_service \<Rightarrow> string option \<times> notification_service"

record automation_system =
  notificationService :: notification_service
  isRunning :: bool
  scheduledTasks :: "string \<rightharpoonup> job"


definition task_failed_alert :: "string \<Rightarrow> string \<Rightarrow> alert_options" where
  "task_failed_alert name msg =
     \<lparr>a_type = ''error'', a_title = ''Automation Task Failed: '' @ name,
      a_message = msg, a_severity = ''high''\<rparr>"

definition scheduled_callback :: "string \<Rightarrow> (notification_service \<Rightarrow> string option \<times> notification_service) \<Rightarrow> notify_env \<Rightarrow> automation_system \<Rightarrow> (error + unit) \<times> automation_system" where
  "scheduled_callback name task env sys =
     (case task (notificationService sys) of
        (None, ns1) \<Rightarrow> (Inr (), sys\<lparr>notificationService := ns1\<rparr>)
      | (Some msg, ns1) \<Rightarrow>
          (case sendAlert env (task_failed_alert name msg) ns1 of
             (Inl e, ns2) \<Rightarrow> (Inl e, sys\<lparr>notificationService := ns2\<rparr>)
           | (Inr n, ns2) \<Rightarrow> (Inr (), sys\<lparr>notificationService := ns2\<rparr>)))"

text \<open>
  A trigger firing: the cron library calls the callback of the job registered under the name,
  if there is one and it is running.
\<close>

definition fire :: "string \<Rightarrow> notify_env \<Rightarrow> automation_system \<Rightarrow> (error + unit) \<times> automation_system" where
  "fire name env sys =
     (case scheduledTasks sys name of
        None \<Rightarrow> (Inr (), sys)
      | Some j \<Rightarrow> if running j then scheduled_callback name (handler j) env sys else (Inr (), sys))"




section \<open>DatabaseBackup\<close>

text \<open>\<^verbatim>\<open>this.backupStats\<close>, also the content of \<^verbatim>\<open>backup-stats.json\<close>.\<close>

record backup_stats =
  totalBackups :: nat
  successfulBackups :: nat
  failedBackups :: nat
  totalSize :: nat

text \<open>
  \<^verbatim>\<open>this.lastBackup\<close>, the record a successful run returns. \<open>b_cloudStorage\<close> is the object
  built by \<^verbatim>\<open>getCloudStorageStatus\<close>, as its key/value pairs.
\<close>

record backup_record =
  b_name :: string
  b_timestamp :: int
  b_size :: nat
  b_duration :: int
  b_cloudStorage :: "(string \<times> string) list"

text \<open>
  The module: \<open>s3\<close> and \<open>drive\<close> say whether the client objects were created by
  \<^verbatim>\<open>configureCloudStorage\<close>, \<open>s3Bucket\<close> and \<open>driveFolderId\<close> are the environment variables
  read there (\<open>None\<close>: unset). \<open>statsFile\<close> is the persisted statistics file; \<open>s3Objects\<close> and
  \<open>driveFiles\<close> are what the two cloud targets hold.
\<close>

record database_backup =
  db_isInitialized :: bool
  s3 :: bool
  s3Bucket :: "string option"
  drive :: bool
  driveFolderId :: "string option"
  backupStats :: backup_stats
  lastBackup :: "backup_record option"
  statsFile :: "backup_stats option"
  s3Objects :: "string list"
  driveFiles :: "string list"

text \<open>
  What one run reads from outside. An \<open>...Error\<close> field is \<open>None\<close> when the step succeeds and
  \<open>Some m\<close> when it throws with message \<open>m\<close>; \<open>archiveSize\<close> is the size \<^verbatim>\<open>fs.stat\<close> reports
  for the archive (\<open>None\<close>: \<^verbatim>\<open>fs.stat\<close> throws); \<open>statsWriteError k\<close> is the outcome of the
  \<open>k\<close>-th write of \<^verbatim>\<open>backup-stats.json\<close> in the run.
\<close>

record backup_env =
  be_timestamp :: string
  be_now :: int
  be_duration :: int
  ensureDirError :: "string option"
  exportError :: "string option"
  archiveError :: "string option"
  s3UploadError :: "string option"
  driveUploadError :: "string option"
  archiveSize :: "nat option"
  statsWriteError :: "nat \<Rightarrow> string option"

text \<open>JavaScript truthiness of a string that may be undefined.\<close>

definition truthy_string :: "string option \<Rightarrow> bool" where
  "truthy_string v = (case v of None \<Rightarrow> False | Some x \<Rightarrow> x \<noteq> [])"

text \<open>
  \<^verbatim>\<open>
  async getFileSize(filePath) {
    try { const stats = await fs.stat(filePath); return stats.size; }
    catch (error) { return 0; }
  }
  \<close>
\<close>

definition getFileSize :: "backup_env \<Rightarrow> nat" where
  "getFileSize env = (case archiveSize env of None \<Rightarrow> 0 | Some n \<Rightarrow> n)"

text \<open>
  \<^verbatim>\<open>
  async updateBackupStats(archivePath, duration, success) {
    this.backupStats.totalBackups++;
    if (success) {
      this.backupStats.successfulBackups++;
      if (archivePath) this.backupStats.totalSize += await this.getFileSize(archivePath);
    } else {
      this.backupStats.failedBackups++;
    }
    const statsPath = path.join(this.backupDir, 'backup-stats.json');
    await fs.writeJson(statsPath, this.backupStats, { spaces: 2 });
  }
  \<close>
  \<open>hasPath\<close> is the truthiness of \<^verbatim>\<open>archivePath\<close>. The counters are updated in memory before
  the write, so they stay updated when the write throws.
\<close>

definition updateBackupStats :: "backup_env \<Rightarrow> nat \<Rightarrow> bool \<Rightarrow> bool \<Rightarrow> database_backup \<Rightarrow> (error + unit) \<times> database_backup" where
  "updateBackupStats env k hasPath success s =
     (let st0 = backupStats s;
          st1 = st0\<lparr>totalBackups := totalBackups st0 + 1\<rparr>;
          st2 = (if success
                 then st1\<lparr>successfulBackups := successfulBackups st1 + 1,
                          totalSize := totalSize st1 + (if hasPath then getFileSize env else 0)\<rparr>
                 else st1\<lparr>failedBackups := failedBackups st1 + 1\<rparr>);
          s1 = s\<lparr>backupStats := st2\<rparr>
      in case statsWriteError env k of
           Some m \<Rightarrow> (Inl (ExternalError m), s1)
         | None \<Rightarrow> (Inr (), s1\<lparr>statsFile := Some st2\<rparr>))"

text \<open>
  \<^verbatim>\<open>uploadToS3\<close> and \<^verbatim>\<open>uploadToGoogleDrive\<close>: the SDK call stores the archive or throws; the
  function logs and rethrows.
\<close>

definition uploadToS3 :: "backup_env \<Rightarrow> string \<Rightarrow> database_backup \<Rightarrow> (error + unit) \<times> database_backup" where
  "uploadToS3 env backupName s =
     (case s3UploadError env of
        Some m \<Rightarrow> (Inl (ExternalError m), s)
      | None \<Rightarrow> (Inr (), s\<lparr>s3Objects := s3Objects s @ [''backups/'' @ backupName @ ''.zip'']\<rparr>))"

definition uploadToGoogleDrive :: "backup_env \<Rightarrow> string \<Rightarrow> database_backup \<Rightarrow> (error + unit) \<times> database_backup" where
  "uploadToGoogleDrive env backupName s =
     (case driveUploadError env of
        Some m \<Rightarrow> (Inl (ExternalError m), s)
      | None \<Rightarrow> (Inr (), s\<lparr>driveFiles := driveFiles s @ [backupName @ ''.zip'']\<rparr>))"

text \<open>
  \<^verbatim>\<open>
  async uploadToCloud(archivePath, backupName) {
    const uploadPromises = [];
    if (this.s3 && this.s3Bucket)
      uploadPromises.push(this.uploadToS3(archivePath, backupName));
    if (this.drive && this.driveFolderId)
      uploadPromises.push(this.uploadToGoogleDrive(archivePath, backupName));
    if (uploadPromises.length > 0) {
      await Promise.allSettled(uploadPromises);
      this.logger.info(`Uploaded backup to ${uploadPromises.length} cloud storage(s)`);
    }
  }
  \<close>
  The model returns the settled results, one per upload started, which the code discards.
\<close>

definition uploadToCloud :: "backup_env \<Rightarrow> string \<Rightarrow> database_backup \<Rightarrow> (string \<times> (error + unit)) list \<times> database_backup" where
  "uploadToCloud env backupName s =
     (let (r1, s1) = (if s3 s \<and> truthy_string (s3Bucket s)
                      then (case uploadToS3 env backupName s of (r, s') \<Rightarrow> ([(''s3'', r)], s'))
                      else ([], s));
          (r2, s2) = (if drive s1 \<and> truthy_string (driveFolderId s1)
                      then (case uploadToGoogleDrive env backupName s1 of (r, s') \<Rightarrow> ([(''googleDrive'', r)], s'))
                      else ([], s1))
      in (r1 @ r2, s2))"

text \<open>
  \<^verbatim>\<open>
  getCloudStorageStatus() {
    const status = {};
    if (this.s3) status.s3 = 'configured';
    if (this.drive) status.googleDrive = 'configured';
    return status;
  }
  \<close>
\<close>

definition getCloudStorageStatus :: "database_backup \<Rightarrow> (string \<times> string) list" where
  "getCloudStorageStatus s =
     (if s3 s then [(''s3'', ''configured'')] else []) @
     (if drive s then [(''googleDrive'', ''configured'')] else [])"

text \<open>
  The \<^verbatim>\<open>catch\<close> block of \<^verbatim>\<open>performBackup\<close>:
  \<^verbatim>\<open>await this.updateBackupStats(null, Date.now() - startTime, false); throw error;\<close>
  If the statistics update itself throws there, that error replaces the original one.
\<close>

definition backup_failed :: "backup_env \<Rightarrow> nat \<Rightarrow> error \<Rightarrow> database_backup \<Rightarrow> (error + backup_record) \<times> database_backup" where
  "backup_failed env k e s =
     (case updateBackupStats env k False False s of
        (Inl e', s1) \<Rightarrow> (Inl e', s1)
      | (Inr u, s1) \<Rightarrow> (Inl e, s1))"

text \<open>
  \<^verbatim>\<open>performBackup\<close> (lines 71 to 119). Inside \<^verbatim>\<open>try\<close>: \<^verbatim>\<open>fs.ensureDir\<close>,
  \<^verbatim>\<open>exportCollections\<close>, \<^verbatim>\<open>createArchive\<close>, \<^verbatim>\<open>uploadToCloud\<close>, \<^verbatim>\<open>cleanupLocalFiles\<close> (which
  catches its own errors and touches only local files, so it has no effect here),
  \<^verbatim>\<open>updateBackupStats(archivePath, duration, true)\<close>, then the record. The call of
  \<^verbatim>\<open>updateBackupStats\<close> is inside the \<^verbatim>\<open>try\<close>, so its failure too reaches the \<^verbatim>\<open>catch\<close>
  block, where the statistics file is written a second time.
\<close>

definition backupName :: "backup_env \<Rightarrow> string" where
  "backupName env = ''codedx_backup_'' @ be_timestamp env"

definition performBackup :: "backup_env \<Rightarrow> database_backup \<Rightarrow> (error + backup_record) \<times> database_backup" where
  "performBackup env s =
     (if \<not> db_isInitialized s then (Inl (NotInitialized ''DatabaseBackup''), s)
      else
        case ensureDirError env of
             Some m \<Rightarrow> backup_failed env 0 (ExternalError m) s
           | None \<Rightarrow>
        (case exportError env of
             Some m \<Rightarrow> backup_failed env 0 (ExternalError m) s
           | None \<Rightarrow>
        (case archiveError env of
             Some m \<Rightarrow> backup_failed env 0 (ExternalError m) s
           | None \<Rightarrow>
        (case uploadToCloud env (backupName env) s of
           (uploads, s1) \<Rightarrow>
        (case updateBackupStats env 0 True True s1 of
           (Inl e, s2) \<Rightarrow> backup_failed env 1 e s2
         | (Inr u, s2) \<Rightarrow>
             let record = \<lparr>b_name = backupName env, b_timestamp = be_now env,
                           b_size = getFileSize env, b_duration = be_duration env,
                           b_cloudStorage = getCloudStorageStatus s2\<rparr>
             in (Inr record, s2\<lparr>lastBackup := Some record\<rparr>))))))"

text \<open>The record that a successful run builds and returns.\<close>

definition backup_record_of :: "backup_env \<Rightarrow> database_backup \<Rightarrow> backup_record" where
  "backup_record_of env s =
     \<lparr>b_name = backupName env, b_timestamp = be_now env,
      b_size = getFileSize env, b_duration = be_duration env,
      b_cloudStorage = getCloudStorageStatus s\<rparr>"

text \<open>The tally of the statistics adds up.\<close>

definition stats_consistent :: "backup_stats \<Rightarrow> bool" where
  "stats_consistent st \<longleftrightarrow> totalBackups st = successfulBackups st + failedBackups st"

text \<open>
  A concrete module with both cloud targets configured, and two runs of it: in the first
  every step succeeds, in the second the upload to S3 is refused.
\<close>

definition ex_backup :: database_backup where
  "ex_backup =
     \<lparr>db_isInitialized = True, s3 = True, s3Bucket = Some ''codedx-backups'',
      drive = True, driveFolderId = Some ''folder-1'',
      backupStats = \<lparr>totalBackups = 4, successfulBackups = 3, failedBackups = 1, totalSize = 900\<rparr>,
      lastBackup = None, statsFile = None, s3Objects = [], driveFiles = []\<rparr>"

definition ex_backup_env :: backup_env where
  "ex_backup_env =
     \<lparr>be_timestamp = ''2024-05-01_06-00-00'', be_now = 1714543200000, be_duration = 1500,
      ensureDirError = None, exportError = None, archiveError = None,
      s3UploadError = None, driveUploadError = None,
      archiveSize = Some 300, statsWriteError = (\<lambda>k. None)\<rparr>"

definition ex_backup_env_s3_refused :: backup_env where
  "ex_backup_env_s3_refused = ex_backup_env\<lparr>s3UploadError := Some ''AccessDenied''\<rparr>"

text \<open>The same module before \<^verbatim>\<open>initialize\<close>, and a run whose first statistics write fails.\<close>

definition ex_backup_uninitialized :: database_backup where
  "ex_backup_uninitialized = ex_backup\<lparr>db_isInitialized := False\<rparr>"

definition ex_backup_env_stats_write_fails :: backup_env where
  "ex_backup_env_stats_write_fails =
     ex_backup_env\<lparr>statsWriteError := (\<lambda>k. if k = 0 then Some ''ENOSPC'' else None)\<rparr>"

section \<open>DeploymentAutomation\<close>

text \<open>
  One entry of \<^verbatim>\<open>deploymentConfig.environments\<close>. \<open>ec_branch\<close> and \<open>ec_domain\<close> may be
  undefined (\<open>None\<close>); both are tested for truthiness before use.
\<close>

record env_config =
  ec_branch :: "string option"
  ec_autoDeploy :: bool
  ec_platform :: string
  ec_domain :: "string option"

datatype deploy_status = DeployPending | DeploySuccess | DeployFailed

text \<open>The deployment object of \<^verbatim>\<open>deploy\<close>, with its two ordered logs.\<close>

record deployment =
  d_id :: string
  d_environment :: string
  d_platform :: string
  d_status :: deploy_status
  d_branch :: string
  d_commit :: "string option"
  d_buildLog :: "string list"
  d_deployLog :: "string list"
  d_error :: "error option"
  d_duration :: int

text \<open>The options of \<^verbatim>\<open>deploy\<close>, after the destructuring defaults.\<close>

record deploy_options =
  dep_environment :: string
  dep_platform :: string
  dep_force :: bool
  dep_skipTests :: bool
  dep_buildCommand :: string
  dep_deployCommand :: "string option"

record deployment_automation =
  da_isInitialized :: bool
  currentBranch :: string
  environments :: "string \<rightharpoonup> env_config"
  deploymentHistory :: "deployment list"
  deploymentFile :: "deployment list option"

text \<open>The table of the constructor; the domains come from the process environment.\<close>

definition default_environments :: "string option \<Rightarrow> string option \<Rightarrow> string option \<Rightarrow> (string \<rightharpoonup> env_config)" where
  "default_environments devDomain stagingDomain prodDomain =
     [''development'' \<mapsto> \<lparr>ec_branch = Some ''develop'', ec_autoDeploy = True,
                           ec_platform = ''vercel'', ec_domain = devDomain\<rparr>,
      ''staging'' \<mapsto> \<lparr>ec_branch = Some ''staging'', ec_autoDeploy = True,
                       ec_platform = ''vercel'', ec_domain = stagingDomain\<rparr>,
      ''production'' \<mapsto> \<lparr>ec_branch = Some ''main'', ec_autoDeploy = False,
                          ec_platform = ''vercel'', ec_domain = prodDomain\<rparr>]"

text \<open>
  The output of a child process: its chunks in order (\<open>True\<close>: written to stderr) and its
  exit code. The outcome of the reachability probe: an HTTP status, or the request's error.
  \<open>gitStatusError\<close> and \<open>gitLogError\<close> are \<open>None\<close> when \<^verbatim>\<open>git.status()\<close> and
  \<^verbatim>\<open>git.log(['-1'])\<close> return and \<open>Some m\<close> when they throw with message \<open>m\<close>.
\<close>

type_synonym process_run = "(bool \<times> string) list \<times> int"

datatype probe = ProbeStatus nat | ProbeError string

record deploy_env =
  de_id :: string
  de_duration :: int
  gitStatusError :: "string option"
  workingTreeDirty :: bool
  packageJsonExists :: bool
  hasBuildScript :: bool
  gitLogError :: "string option"
  latestCommit :: string
  testRun :: process_run
  buildRun :: process_run
  platformRun :: process_run
  domainProbe :: probe
  de_persistOk :: bool

text \<open>
  \<^verbatim>\<open>
  async preDeploymentChecks(deployment, options) {
    deployment.buildLog.push('Running pre-deployment checks...');
    const envConfig = this.deploymentConfig.environments[deployment.environment];
    if (envConfig && envConfig.branch && this.currentBranch.current !== envConfig.branch) {
      throw new Error(`Deployment to ${deployment.environment} requires branch
        '${envConfig.branch}', but current branch is '${this.currentBranch.current}'`);
    }
    const status = await this.git.status();
    if (status.modified.length > 0 || status.created.length > 0 || status.deleted.length > 0) {
      if (!options.force) {
        throw new Error('There are uncommitted changes. Use --force to deploy anyway.');
      }
      deployment.buildLog.push('Warning: Deploying with uncommitted changes');
    }
    if (!await fs.pathExists('package.json')) throw new Error('package.json not found ...');
    const packageJson = await fs.readJson('package.json');
    if (!packageJson.scripts || !packageJson.scripts.build)
      throw new Error('No build script found in package.json');
    deployment.buildLog.push('Pre-deployment checks passed');
  }
  \<close>
  The deployment object is mutated in place, so each stage returns it along with the error it
  threw, if any. \<open>force\<close> is the truthiness of \<^verbatim>\<open>options.force\<close>. \<open>branch_mismatch\<close> is the
  condition of the first \<^verbatim>\<open>if\<close>: the required branch, when there is one and the current
  branch is another.
\<close>

definition branch_mismatch :: "deployment_automation \<Rightarrow> string \<Rightarrow> string option" where
  "branch_mismatch s environment =
     (case environments s environment of
        None \<Rightarrow> None
      | Some ec \<Rightarrow>
          (case ec_branch ec of
             None \<Rightarrow> None
           | Some b \<Rightarrow> if b \<noteq> [] \<and> currentBranch s \<noteq> b then Some b else None))"

definition preDeploymentChecks :: "deploy_env \<Rightarrow> bool \<Rightarrow> deployment_automation \<Rightarrow> deployment \<Rightarrow> error option \<times> deployment" where
  "preDeploymentChecks env force s d0 =
     (let d1 = d0\<lparr>d_buildLog := d_buildLog d0 @ [''Running pre-deployment checks...'']\<rparr>
      in case branch_mismatch s (d_environment d1) of
           Some b \<Rightarrow> (Some (BranchMismatch (d_environment d1) b (currentBranch s)), d1)
         | None \<Rightarrow>
             (case gitStatusError env of
                Some m \<Rightarrow> (Some (ExternalError m), d1)
              | None \<Rightarrow>
                  if workingTreeDirty env \<and> \<not> force then (Some UncommittedChanges, d1)
                  else
                    let d2 = (if workingTreeDirty env
                              then d1\<lparr>d_buildLog := d_buildLog d1 @ [''Warning: Deploying with uncommitted changes'']\<rparr>
                              else d1)
                    in if \<not> packageJsonExists env then (Some PackageJsonMissing, d2)
                       else if \<not> hasBuildScript env then (Some NoBuildScript, d2)
                       else (None, d2\<lparr>d_buildLog := d_buildLog d2 @ [''Pre-deployment checks passed'']\<rparr>)))"

text \<open>
  \<^verbatim>\<open>runTests\<close>, \<^verbatim>\<open>buildApplication\<close> and the platform deploys run a child process, push each
  chunk of its output with a prefix, and resolve on exit code 0.
\<close>

definition tagged :: "string \<Rightarrow> (bool \<times> string) list \<Rightarrow> string list" where
  "tagged tag chunks = map (\<lambda>c. (if fst c then tag @ '' ERROR: '' else tag @ '': '') @ snd c) chunks"

definition runTests :: "deploy_env \<Rightarrow> deployment \<Rightarrow> error option \<times> deployment" where
  "runTests env d =
     (let d1 = d\<lparr>d_buildLog := d_buildLog d @ [''Running tests...''] @ tagged ''TEST'' (fst (testRun env))\<rparr>
      in if snd (testRun env) = 0
         then (None, d1\<lparr>d_buildLog := d_buildLog d1 @ [''Tests passed'']\<rparr>)
         else (Some (TestsFailed (snd (testRun env))), d1))"

definition buildApplication :: "deploy_env \<Rightarrow> deployment \<Rightarrow> error option \<times> deployment" where
  "buildApplication env d =
     (let d1 = d\<lparr>d_buildLog := d_buildLog d @ [''Building application...''] @ tagged ''BUILD'' (fst (buildRun env))\<rparr>
      in if snd (buildRun env) = 0
         then (None, d1\<lparr>d_buildLog := d_buildLog d1 @ [''Build completed successfully'']\<rparr>)
         else (Some (BuildFailed (snd (buildRun env))), d1))"

definition deployToPlatform :: "deploy_env \<Rightarrow> string \<Rightarrow> deployment \<Rightarrow> error option \<times> deployment" where
  "deployToPlatform env platform d =
     (let d1 = d\<lparr>d_deployLog := d_deployLog d @ [''Deploying to '' @ platform @ ''...'']\<rparr>
      in if platform = ''vercel'' then
           (let d2 = d1\<lparr>d_deployLog := d_deployLog d1 @ tagged ''VERCEL'' (fst (platformRun env))\<rparr>
            in if snd (platformRun env) = 0
               then (None, d2\<lparr>d_deployLog := d_deployLog d2 @ [''Vercel deployment completed'']\<rparr>)
               else (Some (PlatformDeployFailed ''Vercel'' (snd (platformRun env))), d2))
         else if platform = ''aws'' then
           (Some AwsNotImplemented,
            d1\<lparr>d_deployLog := d_deployLog d1 @ [''AWS deployment not yet implemented'']\<rparr>)
         else if platform = ''netlify'' then
           (let d2 = d1\<lparr>d_deployLog := d_deployLog d1 @ tagged ''NETLIFY'' (fst (platformRun env))\<rparr>
            in if snd (platformRun env) = 0
               then (None, d2\<lparr>d_deployLog := d_deployLog d2 @ [''Netlify deployment completed'']\<rparr>)
               else (Some (PlatformDeployFailed ''Netlify'' (snd (platformRun env))), d2))
         else (Some (UnsupportedPlatform platform), d1))"

text \<open>A number as a template literal renders it: its decimal digits.\<close>

fun digits :: "nat \<Rightarrow> string" where
  "digits n =
     (if n < 10 then [char_of (48 + n)] else digits (n div 10) @ [char_of (48 + n mod 10)])"

declare digits.simps [simp del]

text \<open>
  \<^verbatim>\<open>postDeploymentChecks\<close> (lines 312 to 337) never throws: the probe's error is caught and
  logged.
\<close>

definition postDeploymentChecks :: "deploy_env \<Rightarrow> deployment_automation \<Rightarrow> deployment \<Rightarrow> deployment" where
  "postDeploymentChecks env s d =
     (let d1 = d\<lparr>d_deployLog := d_deployLog d @ [''Running post-deployment checks...'']\<rparr>;
          domain = (case environments s (d_environment d1) of
                      None \<Rightarrow> None
                    | Some ec \<Rightarrow> if truthy_string (ec_domain ec) then ec_domain ec else None);
          d2 = (case domain of
                  None \<Rightarrow> d1
                | Some host \<Rightarrow>
                    (case domainProbe env of
                       ProbeStatus st \<Rightarrow>
                         if st = 200
                         then d1\<lparr>d_deployLog := d_deployLog d1 @ [''Deployment accessible at https://'' @ host]\<rparr>
                         else d1\<lparr>d_deployLog := d_deployLog d1 @ [''Warning: Deployment returned status '' @ digits st]\<rparr>
                     | ProbeError m \<Rightarrow>
                         d1\<lparr>d_deployLog := d_deployLog d1 @ [''Warning: Could not verify deployment accessibility: '' @ m]\<rparr>))
      in d2\<lparr>d_deployLog := d_deployLog d2 @ [''Post-deployment checks completed'']\<rparr>)"

definition storeDeployment :: "deploy_env \<Rightarrow> deployment \<Rightarrow> deployment_automation \<Rightarrow> deployment_automation" where
  "storeDeployment env d s =
     s\<lparr>deploymentHistory := push_capped 100 (deploymentHistory s) d,
       deploymentFile :=
         (if de_persistOk env
          then Some ((case deploymentFile s of None \<Rightarrow> [] | Some ds \<Rightarrow> ds) @ [d])
          else deploymentFile s)\<rparr>"

text \<open>
  The body of the \<^verbatim>\<open>try\<close> block of \<^verbatim>\<open>deploy\<close> up to the last stage. The call is
  \<^verbatim>\<open>await this.preDeploymentChecks(deployment, { skipTests })\<close>: the options object handed to
  the checks has no \<^verbatim>\<open>force\<close> property, so \<^verbatim>\<open>options.force\<close> is undefined there, whatever
  \<^verbatim>\<open>force\<close> the caller of \<^verbatim>\<open>deploy\<close> gave.
\<close>

definition deploy_stages :: "deploy_env \<Rightarrow> deploy_options \<Rightarrow> deployment_automation \<Rightarrow> deployment \<Rightarrow> error option \<times> deployment" where
  "deploy_stages env opts s d0 =
     (case preDeploymentChecks env False s d0 of
        (Some e, d1) \<Rightarrow> (Some e, d1)
      | (None, d1) \<Rightarrow>
          (case gitLogError env of
             Some m \<Rightarrow> (Some (ExternalError m), d1)
           | None \<Rightarrow>
               let d2 = d1\<lparr>d_commit := Some (latestCommit env)\<rparr>
               in case (if \<not> dep_skipTests opts then runTests env d2 else (None, d2)) of
                    (Some e, d3) \<Rightarrow> (Some e, d3)
                  | (None, d3) \<Rightarrow>
                      (case buildApplication env d3 of
                         (Some e, d4) \<Rightarrow> (Some e, d4)
                       | (None, d4) \<Rightarrow>
                           (case deployToPlatform env (dep_platform opts) d4 of
                              (Some e, d5) \<Rightarrow> (Some e, d5)
                            | (None, d5) \<Rightarrow> (None, postDeploymentChecks env s d5)))))"

definition new_deployment :: "deploy_env \<Rightarrow> deploy_options \<Rightarrow> deployment_automation \<Rightarrow> deployment" where
  "new_deployment env opts s =
     \<lparr>d_id = de_id env, d_environment = dep_environment opts, d_platform = dep_platform opts,
      d_status = DeployPending, d_branch = currentBranch s, d_commit = None,
      d_buildLog = [], d_deployLog = [], d_error = None, d_duration = 0\<rparr>"

text \<open>
  \<^verbatim>\<open>deploy\<close> (lines 78 to 154): the guard, the deployment object, the stages; on success
  the status and the store, in the \<^verbatim>\<open>catch\<close> block the failed status, the error, the store
  and the rethrow.
\<close>

definition deploy :: "deploy_env \<Rightarrow> deploy_options \<Rightarrow> deployment_automation \<Rightarrow> (error + deployment) \<times> deployment_automation" where
  "deploy env opts s =
     (if \<not> da_isInitialized s then (Inl (NotInitialized ''DeploymentAutomation''), s)
      else
        case deploy_stages env opts s (new_deployment env opts s) of
          (None, d) \<Rightarrow>
            let finished = d\<lparr>d_status := DeploySuccess, d_duration := de_duration env\<rparr>
            in (Inr finished, storeDeployment env finished s)
        | (Some e, d) \<Rightarrow>
            let failed = d\<lparr>d_status := DeployFailed, d_error := Some e, d_duration := de_duration env\<rparr>
            in (Inl e, storeDeployment env failed s))"

text \<open>
  A concrete module on branch \<open>develop\<close>, a clean and buildable working tree, and a forced
  deployment to production, whose required branch is \<open>main\<close>.
\<close>

definition ex_deployer :: deployment_automation where
  "ex_deployer =
     \<lparr>da_isInitialized = True, currentBranch = ''develop'',
      environments = default_environments None None (Some ''codedx.example''),
      deploymentHistory = [], deploymentFile = None\<rparr>"

definition ex_deploy_env :: deploy_env where
  "ex_deploy_env =
     \<lparr>de_id = ''deploy_1'', de_duration = 40, gitStatusError = None, workingTreeDirty = False,
      packageJsonExists = True, hasBuildScript = True, gitLogError = None,
      latestCommit = ''abc123'',
      testRun = ([], 0), buildRun = ([], 0), platformRun = ([], 0),
      domainProbe = ProbeStatus 200, de_persistOk = True\<rparr>"

definition ex_forced_production :: deploy_options where
  "ex_forced_production =
     \<lparr>dep_environment = ''production'', dep_platform = ''vercel'', dep_force = True,
      dep_skipTests = False, dep_buildCommand = ''npm run build'', dep_deployCommand = None\<rparr>"

section \<open>ReportGenerator\<close>

subsection \<open>JavaScript values\<close>

text \<open>
  Section data are plain JavaScript values. Reading a property of an object gives the value
  or \<^verbatim>\<open>undefined\<close>; reading a property of \<^verbatim>\<open>undefined\<close> or \<^verbatim>\<open>null\<close> throws a
  \<^verbatim>\<open>TypeError\<close>; reading an unknown property of a number or string gives \<^verbatim>\<open>undefined\<close>.
  The \<open>TypeError\<close> of the model carries the name of the property or method whose read or call
  failed.
\<close>

datatype js = JUndefined | JNull | JNum int | JStr string | JObj "(string \<times> js) list"

definition truthy :: "js \<Rightarrow> bool" where
  "truthy v = (case v of JUndefined \<Rightarrow> False | JNull \<Rightarrow> False | JNum n \<Rightarrow> n \<noteq> 0
               | JStr s \<Rightarrow> s \<noteq> [] | JObj kvs \<Rightarrow> True)"

definition get_prop :: "js \<Rightarrow> string \<Rightarrow> error + js" where
  "get_prop v k =
     (case v of
        JObj kvs \<Rightarrow> Inr (case map_of kvs k of None \<Rightarrow> JUndefined | Some x \<Rightarrow> x)
      | JUndefined \<Rightarrow> Inl (TypeError k)
      | JNull \<Rightarrow> Inl (TypeError k)
      | JNum n \<Rightarrow> Inr JUndefined
      | JStr s \<Rightarrow> Inr JUndefined)"

text \<open>\<^verbatim>\<open>v.k1.k2\<close>: the reads left to right, the first throw ending the chain.\<close>

fun get_path :: "js \<Rightarrow> string list \<Rightarrow> error + js" where
  "get_path v [] = Inr v"
| "get_path v (k # ks) = (case get_prop v k of Inl e \<Rightarrow> Inl e | Inr w \<Rightarrow> get_path w ks)"

text \<open>
  \<^verbatim>\<open>obj[key] = value\<close> on an object kept as its key/value pairs in insertion order: an
  existing key keeps its place, a new one goes last.
\<close>

fun set_prop :: "(string \<times> js) list \<Rightarrow> string \<Rightarrow> js \<Rightarrow> (string \<times> js) list" where
  "set_prop [] k v = [(k, v)]"
| "set_prop ((k', v') # kvs) k v = (if k' = k then (k, v) # kvs else (k', v') # set_prop kvs k v)"

subsection \<open>Reports\<close>

datatype report_status = Generating | Completed | ReportFailed

text \<open>
  The summary object: its highlights, each a fixed label and the value interpolated after it.
\<close>

record report =
  r_id :: string
  r_type :: string
  r_format :: string
  r_sections :: "string list"
  r_data :: "(string \<times> js) list"
  r_charts :: "string list"
  r_highlights :: "(string \<times> js) list"
  r_status :: report_status
  r_error :: "error option"
  r_duration :: int

record report_options =
  ro_type :: string
  ro_sections :: "string list"
  ro_format :: string
  ro_includeCharts :: bool

record report_generator =
  rg_isInitialized :: bool
  reportHistory :: "report list"
  reportFile :: "report list option"
  savedReports :: "(string \<times> string) list"

text \<open>
  What one call reads from outside: the id and duration, the data of the two sections whose
  collectors all exist, the outcome of writing the report file, and whether the record file
  can be written.
\<close>

record report_env =
  re_id :: string
  re_duration :: int
  systemSection :: js
  usersSection :: js
  saveError :: "string option"
  re_persistOk :: bool

text \<open>\<^verbatim>\<open>this.reportTemplates[type]?.sections || []\<close>\<close>

definition template_sections :: "string \<Rightarrow> string list" where
  "template_sections t =
     (if t = ''weekly'' then [''system'', ''users'', ''performance'', ''errors'']
      else if t = ''monthly'' then [''analytics'', ''trends'', ''growth'', ''recommendations'']
      else if t = ''daily'' then [''health'', ''alerts'', ''performance'']
      else [])"

text \<open>
  \<^verbatim>\<open>generateSection\<close> dispatches on the section name and throws
  \<^verbatim>\<open>Unknown report section\<close> otherwise. The section generators build an object from data
  collection methods, awaited in order. For \<open>system\<close> and \<open>users\<close> every collector is defined
  in the class (and the \<open>users\<close> collectors catch their own errors), so these return their
  data. Each of the other eight generators calls a collector that the class does not define:
  \<^verbatim>\<open>generatePerformanceSection\<close> reaches \<^verbatim>\<open>this.getThroughput(...)\<close> after two defined
  collectors, \<^verbatim>\<open>generateErrorsSection\<close> reaches \<^verbatim>\<open>this.getErrorTrends\<close>,
  \<^verbatim>\<open>generateAnalyticsSection\<close> reaches \<^verbatim>\<open>this.getCourseProgress\<close>, and the generators of
  \<open>trends\<close>, \<open>growth\<close>, \<open>health\<close>, \<open>alerts\<close> and \<open>recommendations\<close> call an undefined collector
  first. Calling an undefined method throws a \<^verbatim>\<open>TypeError\<close>.
\<close>

definition generateSection :: "report_env \<Rightarrow> string \<Rightarrow> error + js" where
  "generateSection env section =
     (if section = ''system'' then Inr (systemSection env)
      else if section = ''users'' then Inr (usersSection env)
      else if section = ''performance'' then Inl (TypeError ''getThroughput'')
      else if section = ''errors'' then Inl (TypeError ''getErrorTrends'')
      else if section = ''analytics'' then Inl (TypeError ''getCourseProgress'')
      else if section = ''trends'' then Inl (TypeError ''getUserGrowthTrend'')
      else if section = ''growth'' then Inl (TypeError ''getUserGrowth'')
      else if section = ''health'' then Inl (TypeError ''getSystemHealth'')
      else if section = ''alerts'' then Inl (TypeError ''getTotalAlerts'')
      else if section = ''recommendations'' then Inl (TypeError ''getPerformanceRecommendations'')
      else Inl (UnknownSection section))"

text \<open>
  The \<^verbatim>\<open>{ error: error.message }\<close> placeholder. The message is kept as the error value.
\<close>

definition error_text :: "error \<Rightarrow> string" where
  "error_text e =
     (case e of
        TypeError m \<Rightarrow> ''TypeError: '' @ m
      | UnknownSection m \<Rightarrow> ''Unknown report section: '' @ m
      | ExternalError m \<Rightarrow> m
      | _ \<Rightarrow> ''Error'')"

definition placeholder :: "error \<Rightarrow> js" where
  "placeholder e = JObj [(''error'', JStr (error_text e))]"

text \<open>
  \<^verbatim>\<open>
  for (const section of report.sections) {
    try {
      report.data[section] = await this.generateSection(section, report.dateRange);
    } catch (error) {
      this.logger.error(`Failed to generate section ${section}:`, error);
      report.data[section] = { error: error.message };
    }
  }
  \<close>
\<close>

fun generateSections :: "report_env \<Rightarrow> string list \<Rightarrow> (string \<times> js) list \<Rightarrow> (string \<times> js) list" where
  "generateSections env [] data = data"
| "generateSections env (section # rest) data =
     generateSections env rest
       (set_prop data section
          (case generateSection env section of Inl e \<Rightarrow> placeholder e | Inr v \<Rightarrow> v))"

text \<open>
  \<^verbatim>\<open>
  async generateSummary(data, type) {
    const summary = { ..., highlights: [], ... };
    if (data.users) {
      summary.highlights.push(`Total users: ${data.users.totalUsers}`);
      summary.highlights.push(`New users this period: ${data.users.newUsers}`);
    }
    if (data.performance) {
      summary.highlights.push(`Average response time: ${data.performance.responseTimes.average}`);
      summary.highlights.push(`Error rate: ${data.performance.errorRates.rate}`);
    }
    if (data.analytics) {
      summary.highlights.push(`Total page views: ${data.analytics.pageViews.total}`);
      summary.highlights.push(`Lesson completions: ${data.analytics.lessonCompletions.total}`);
    }
    return summary;
  }
  \<close>
  \<open>highlight_block\<close> is one \<^verbatim>\<open>if\<close>: when the section is truthy, the two reads in order, the
  first throw leaving the function.
\<close>

definition data_prop :: "(string \<times> js) list \<Rightarrow> string \<Rightarrow> js" where
  "data_prop data k = (case map_of data k of None \<Rightarrow> JUndefined | Some v \<Rightarrow> v)"

definition highlight_block :: "(string \<times> js) list \<Rightarrow> string \<Rightarrow> (string \<times> string list) \<Rightarrow> (string \<times> string list) \<Rightarrow> (string \<times> js) list \<Rightarrow> error + (string \<times> js) list" where
  "highlight_block data section h1 h2 highlights =
     (if truthy (data_prop data section)
      then (case get_path (data_prop data section) (snd h1) of
              Inl e \<Rightarrow> Inl e
            | Inr v1 \<Rightarrow>
                (case get_path (data_prop data section) (snd h2) of
                   Inl e \<Rightarrow> Inl e
                 | Inr v2 \<Rightarrow> Inr (highlights @ [(fst h1, v1), (fst h2, v2)])))
      else Inr highlights)"

definition generateSummary :: "(string \<times> js) list \<Rightarrow> error + (string \<times> js) list" where
  "generateSummary data =
     (case highlight_block data ''users''
             (''Total users: '', [''totalUsers''])
             (''New users this period: '', [''newUsers'']) [] of
        Inl e \<Rightarrow> Inl e
      | Inr h1 \<Rightarrow>
          (case highlight_block data ''performance''
                  (''Average response time: '', [''responseTimes'', ''average''])
                  (''Error rate: '', [''errorRates'', ''rate'']) h1 of
             Inl e \<Rightarrow> Inl e
           | Inr h2 \<Rightarrow>
               highlight_block data ''analytics''
                 (''Total page views: '', [''pageViews'', ''total''])
                 (''Lesson completions: '', [''lessonCompletions'', ''total'']) h2))"

text \<open>
  \<^verbatim>\<open>
  async generateCharts(data, type) {
    const charts = [];
    if (data.users && data.users.userEngagement) charts.push({ ... 'User Engagement Over Time' ... });
    if (data.performance && data.performance.responseTimes) charts.push({ ... 'Response Time Distribution' ... });
    return charts;
  }
  \<close>
  The second read is guarded by the truthiness of the first, so it never throws. A chart is
  kept as its title.
\<close>

definition has_truthy :: "(string \<times> js) list \<Rightarrow> string \<Rightarrow> string \<Rightarrow> bool" where
  "has_truthy data section k =
     (truthy (data_prop data section) \<and>
      (case get_prop (data_prop data section) k of Inl e \<Rightarrow> False | Inr v \<Rightarrow> truthy v))"

definition generateCharts :: "(string \<times> js) list \<Rightarrow> string list" where
  "generateCharts data =
     (if has_truthy data ''users'' ''userEngagement'' then [''User Engagement Over Time''] else []) @
     (if has_truthy data ''performance'' ''responseTimes'' then [''Response Time Distribution''] else [])"

text \<open>
  \<^verbatim>\<open>formatReport\<close> renders \<open>json\<close> and \<open>html\<close>, throws for \<open>pdf\<close> (not implemented) and for any
  other format; the rendered text itself is not modelled. \<^verbatim>\<open>saveReport\<close> writes the file
  \<^verbatim>\<open>report-<id>.<extension>\<close>.
\<close>

definition formatReport :: "string \<Rightarrow> error option" where
  "formatReport format =
     (if format = ''json'' \<or> format = ''html'' then None
      else if format = ''pdf'' then Some PdfNotImplemented
      else Some (UnsupportedFormat format))"

definition report_extension :: "string \<Rightarrow> string" where
  "report_extension format =
     (if format = ''html'' then ''html'' else if format = ''pdf'' then ''pdf'' else ''json'')"

definition storeReportRecord :: "report_env \<Rightarrow> report \<Rightarrow> report_generator \<Rightarrow> report_generator" where
  "storeReportRecord env r s =
     s\<lparr>reportHistory := push_capped 100 (reportHistory s) r,
       reportFile :=
         (if re_persistOk env
          then Some ((case reportFile s of None \<Rightarrow> [] | Some rs \<Rightarrow> rs) @ [r])
          else reportFile s)\<rparr>"

definition new_report :: "report_env \<Rightarrow> report_options \<Rightarrow> report" where
  "new_report env opts =
     \<lparr>r_id = re_id env, r_type = ro_type opts, r_format = ro_format opts,
      r_sections = (if length (ro_sections opts) > 0 then ro_sections opts
                    else template_sections (ro_type opts)),
      r_data = [], r_charts = [], r_highlights = [], r_status = Generating,
      r_error = None, r_duration = 0\<rparr>"

text \<open>
  The \<^verbatim>\<open>catch\<close> block of \<^verbatim>\<open>generateReport\<close>: the report is marked failed with the error,
  stored, and the error is rethrown.
\<close>

definition report_failed :: "report_env \<Rightarrow> error \<Rightarrow> report \<Rightarrow> report_generator \<Rightarrow> (error + report) \<times> report_generator" where
  "report_failed env e r s =
     (Inl e, storeReportRecord env (r\<lparr>r_status := ReportFailed, r_error := Some e, r_duration := re_duration env\<rparr>) s)"

text \<open>
  \<^verbatim>\<open>generateReport\<close> (lines 51 to 125): the guard, the report object, then inside \<^verbatim>\<open>try\<close>
  the section loop, the summary, the charts when requested, the formatting, the save, the
  status and the record.
\<close>

definition generateReport :: "report_env \<Rightarrow> report_options \<Rightarrow> report_generator \<Rightarrow> (error + report) \<times> report_generator" where
  "generateReport env opts s =
     (if \<not> rg_isInitialized s then (Inl (NotInitialized ''ReportGenerator''), s)
      else
        let r0 = new_report env opts;
            r1 = r0\<lparr>r_data := generateSections env (r_sections r0) (r_data r0)\<rparr>
        in case generateSummary (r_data r1) of
             Inl e \<Rightarrow> report_failed env e r1 s
           | Inr highlights \<Rightarrow>
               let r2 = r1\<lparr>r_highlights := highlights\<rparr>;
                   r3 = (if ro_includeCharts opts then r2\<lparr>r_charts := generateCharts (r_data r2)\<rparr> else r2)
               in case formatReport (ro_format opts) of
                    Some e \<Rightarrow> report_failed env e r3 s
                  | None \<Rightarrow>
                      (case saveError env of
                         Some m \<Rightarrow> report_failed env (ExternalError m) r3 s
                       | None \<Rightarrow>
                           let r4 = r3\<lparr>r_status := Completed, r_duration := re_duration env\<rparr>;
                               s1 = s\<lparr>savedReports := savedReports s @
                                       [(''report-'' @ r_id r4 @ ''.'' @ report_extension (ro_format opts), r_format r4)]\<rparr>
                           in (Inr r4, storeReportRecord env r4 s1)))"

text \<open>
  \<^verbatim>\<open>generateWeeklyReport\<close>, the handler of the scheduled job \<open>weekly-reports\<close>:
  \<^verbatim>\<open>this.generateReport({ type: 'weekly', format: 'html', includeCharts: true })\<close>.
\<close>

definition weekly_options :: report_options where
  "weekly_options =
     \<lparr>ro_type = ''weekly'', ro_sections = [], ro_format = ''html'', ro_includeCharts = True\<rparr>"

definition generateWeeklyReport :: "report_env \<Rightarrow> report_generator \<Rightarrow> (error + report) \<times> report_generator" where
  "generateWeeklyReport env s = generateReport env weekly_options s"

text \<open>An initialised generator and an environment in which every outside call succeeds.\<close>

definition ex_generator :: report_generator where
  "ex_generator =
     \<lparr>rg_isInitialized = True, reportHistory = [], reportFile = None, savedReports = []\<rparr>"

definition ex_report_env :: report_env where
  "ex_report_env =
     \<lparr>re_id = ''report_1'', re_duration = 12,
      systemSection = JObj [(''uptime'', JObj [(''totalUptime'', JStr ''99.9%'')])],
      usersSection = JObj [(''totalUsers'', JNum 42), (''newUsers'', JNum 3)],
      saveError = None, re_persistOk = True\<rparr>"

section \<open>HealthMonitor\<close>

text \<open>
  The six checks only ever produce the statuses \<^verbatim>\<open>'healthy'\<close>, \<^verbatim>\<open>'warning'\<close>,
  \<^verbatim>\<open>'unhealthy'\<close> and \<^verbatim>\<open>'error'\<close>. \<open>severity\<close> is the order of the specification:
  healthy below warning below unhealthy below error.
\<close>

datatype health_status = Healthy | Warning | Unhealthy | StatusError

fun severity :: "health_status \<Rightarrow> nat" where
  "severity Healthy = 0"
| "severity Warning = 1"
| "severity Unhealthy = 2"
| "severity StatusError = 3"

text \<open>
  The part of a check's \<^verbatim>\<open>metrics\<close> that \<^verbatim>\<open>checkForAlerts\<close> reads: \<^verbatim>\<open>cpu.usage\<close> and
  \<^verbatim>\<open>memory.usage\<close> of the system check (percentages), \<^verbatim>\<open>responseTime\<close> of the application
  check (milliseconds). The metrics of the other checks are never read.
\<close>

datatype metrics =
    SystemMetrics real real
  | ApplicationMetrics int int
  | OtherMetrics

record check_result =
  hc_status :: health_status
  hc_message :: "string option"
  hc_metrics :: "metrics option"

record thresholds =
  th_cpu :: real
  th_memory :: real
  th_disk :: real
  th_responseTime :: int

record alert =
  al_type :: string
  al_component :: string
  al_metric :: "string option"

record health_report =
  h_overall :: health_status
  h_checks :: "(string \<times> check_result) list"
  h_alerts :: "alert list"

record health_monitor =
  hm_isInitialized :: bool
  alertThresholds :: thresholds
  healthHistory :: "health_report list"
  lastAlert :: "int option"
  alertCooldown :: int

text \<open>
  What one \<^verbatim>\<open>checkHealth\<close> reads from outside. Each probe is \<open>Inl m\<close> when the calls made by
  the check throw with message \<open>m\<close>, and otherwise the readings the check computes its status
  from: the rounded usages; connected, ping answered and round-trip time; status code and
  response time; the number of reachable endpoints out of three; the memory usage. \<open>he_now\<close>
  is the reading of \<^verbatim>\<open>Date.now()\<close> in \<^verbatim>\<open>checkForAlerts\<close>.
\<close>

record health_env =
  he_now :: int
  systemProbe :: "string + real \<times> real"
  databaseProbe :: "string + bool \<times> bool \<times> int"
  applicationProbe :: "string + int \<times> int"
  networkProbe :: "string + nat"
  diskProbe :: "string + unit"
  memoryProbe :: "string + real"
  metricsError :: "string option"

text \<open>
  The result that the wrapper in \<^verbatim>\<open>checkHealth\<close>, and the \<^verbatim>\<open>catch\<close> block of five of the
  checks, builds from a thrown error: \<^verbatim>\<open>{ status: 'error', message: error.message, ... }\<close>.
\<close>

definition errorResult :: "string \<Rightarrow> check_result" where
  "errorResult m = \<lparr>hc_status = StatusError, hc_message = Some m, hc_metrics = None\<rparr>"

definition checkSystemHealth :: "health_env \<Rightarrow> check_result" where
  "checkSystemHealth env =
     (case systemProbe env of
        Inl m \<Rightarrow> errorResult m
      | Inr u \<Rightarrow> \<lparr>hc_status = Healthy, hc_message = None,
                   hc_metrics = Some (SystemMetrics (fst u) (snd u))\<rparr>)"

definition checkDatabaseHealth :: "health_env \<Rightarrow> check_result" where
  "checkDatabaseHealth env =
     (case databaseProbe env of
        Inl m \<Rightarrow> errorResult m
      | Inr d \<Rightarrow> \<lparr>hc_status = (if fst d \<and> fst (snd d) then Healthy else Unhealthy),
                   hc_message = None, hc_metrics = Some OtherMetrics\<rparr>)"

definition checkApplicationHealth :: "health_env \<Rightarrow> check_result" where
  "checkApplicationHealth env =
     (case applicationProbe env of
        Inl m \<Rightarrow> errorResult m
      | Inr a \<Rightarrow> \<lparr>hc_status = (if fst a = 200 then Healthy else Unhealthy),
                   hc_message = None, hc_metrics = Some (ApplicationMetrics (fst a) (snd a))\<rparr>)"

definition checkNetworkHealth :: "health_env \<Rightarrow> check_result" where
  "checkNetworkHealth env =
     (case networkProbe env of
        Inl m \<Rightarrow> errorResult m
      | Inr n \<Rightarrow> \<lparr>hc_status = (if n \<ge> 2 then Healthy else Unhealthy),
                   hc_message = None, hc_metrics = Some OtherMetrics\<rparr>)"

text \<open>The disk check reports a fixed \<^verbatim>\<open>usagePercent: 20\<close>.\<close>

definition checkDiskHealth :: "health_env \<Rightarrow> thresholds \<Rightarrow> check_result" where
  "checkDiskHealth env th =
     (case diskProbe env of
        Inl m \<Rightarrow> errorResult m
      | Inr u \<Rightarrow> \<lparr>hc_status = (if 20 < th_disk th then Healthy else Warning),
                   hc_message = None, hc_metrics = Some OtherMetrics\<rparr>)"

definition checkMemoryHealth :: "health_env \<Rightarrow> thresholds \<Rightarrow> check_result" where
  "checkMemoryHealth env th =
     (case memoryProbe env of
        Inl m \<Rightarrow> errorResult m
      | Inr usage \<Rightarrow> \<lparr>hc_status = (if usage < th_memory th then Healthy else Warning),
                       hc_message = None, hc_metrics = Some OtherMetrics\<rparr>)"

text \<open>
  \<^verbatim>\<open>
  determineOverallHealth(checks) {
    const statuses = Object.values(checks).map(check => check.status);
    if (statuses.includes('error')) return 'error';
    if (statuses.includes('unhealthy')) return 'unhealthy';
    if (statuses.includes('warning')) return 'warning';
    return 'healthy';
  }
  \<close>
\<close>

definition determineOverallHealth :: "(string \<times> check_result) list \<Rightarrow> health_status" where
  "determineOverallHealth checks =
     (let statuses = map (\<lambda>c. hc_status (snd c)) checks
      in if StatusError \<in> set statuses then StatusError
         else if Unhealthy \<in> set statuses then Unhealthy
         else if Warning \<in> set statuses then Warning
         else Healthy)"

text \<open>
  \<^verbatim>\<open>checkForAlerts\<close> (lines 347 to 422). \<^verbatim>\<open>this.lastAlert && ...\<close> tests the truthiness
  of a number or \<^verbatim>\<open>null\<close>: \<^verbatim>\<open>null\<close> and \<^verbatim>\<open>0\<close> are falsy. The alert objects keep their type,
  component and metric.
\<close>

definition in_cooldown :: "int \<Rightarrow> health_monitor \<Rightarrow> bool" where
  "in_cooldown now s =
     (case lastAlert s of
        None \<Rightarrow> False
      | Some t \<Rightarrow> t \<noteq> 0 \<and> now - t < alertCooldown s)"

definition system_alerts :: "thresholds \<Rightarrow> check_result option \<Rightarrow> alert list" where
  "system_alerts th c =
     (case c of
        None \<Rightarrow> []
      | Some systemCheck \<Rightarrow>
          (case hc_metrics systemCheck of
             Some (SystemMetrics cpu mem) \<Rightarrow>
               (if cpu > th_cpu th
                then [\<lparr>al_type = ''warning'', al_component = ''system'', al_metric = Some ''cpu''\<rparr>]
                else []) @
               (if mem > th_memory th
                then [\<lparr>al_type = ''warning'', al_component = ''system'', al_metric = Some ''memory''\<rparr>]
                else [])
           | _ \<Rightarrow> []))"

definition database_alerts :: "check_result option \<Rightarrow> alert list" where
  "database_alerts c =
     (case c of
        None \<Rightarrow> []
      | Some dbCheck \<Rightarrow>
          if hc_status dbCheck = StatusError
          then [\<lparr>al_type = ''error'', al_component = ''database'', al_metric = None\<rparr>]
          else [])"

definition application_alerts :: "thresholds \<Rightarrow> check_result option \<Rightarrow> alert list" where
  "application_alerts th c =
     (case c of
        None \<Rightarrow> []
      | Some appCheck \<Rightarrow>
          (if hc_status appCheck = StatusError
           then [\<lparr>al_type = ''error'', al_component = ''application'', al_metric = None\<rparr>]
           else []) @
          (case hc_metrics appCheck of
             Some (ApplicationMetrics code rt) \<Rightarrow>
               if rt > th_responseTime th
               then [\<lparr>al_type = ''warning'', al_component = ''application'', al_metric = Some ''responseTime''\<rparr>]
               else []
           | _ \<Rightarrow> []))"

definition checkForAlerts :: "int \<Rightarrow> (string \<times> check_result) list \<Rightarrow> health_monitor \<Rightarrow> alert list \<times> health_monitor" where
  "checkForAlerts now checks s =
     (if in_cooldown now s then ([], s)
      else
        let alerts = system_alerts (alertThresholds s) (map_of checks ''system'') @
                     database_alerts (map_of checks ''database'') @
                     application_alerts (alertThresholds s) (map_of checks ''application'')
        in (alerts, if length alerts > 0 then s\<lparr>lastAlert := Some now\<rparr> else s))"

text \<open>
  \<^verbatim>\<open>checkHealth\<close> (lines 50 to 109): the guard; the six registered checks, each wrapped so
  that a throw becomes an error result; \<^verbatim>\<open>collectSystemMetrics\<close>; the overall status; the
  alerts; the store (the last 100 reports are kept in memory; the report file is written
  best-effort and is not modelled). The checks run concurrently
  and \<^verbatim>\<open>healthReport.checks\<close> receives their results as they complete; the model lists them
  in the order of registration.
\<close>

definition run_checks :: "health_env \<Rightarrow> thresholds \<Rightarrow> (string \<times> check_result) list" where
  "run_checks env th =
     [(''system'', checkSystemHealth env),
      (''database'', checkDatabaseHealth env),
      (''application'', checkApplicationHealth env),
      (''network'', checkNetworkHealth env),
      (''disk'', checkDiskHealth env th),
      (''memory'', checkMemoryHealth env th)]"

definition checkHealth :: "health_env \<Rightarrow> health_monitor \<Rightarrow> (error + health_report) \<times> health_monitor" where
  "checkHealth env s =
     (if \<not> hm_isInitialized s then (Inl (NotInitialized ''HealthMonitor''), s)
      else
        let checks = run_checks env (alertThresholds s)
        in case metricsError env of
             Some m \<Rightarrow> (Inl (ExternalError m), s)
           | None \<Rightarrow>
               let overall = determineOverallHealth checks;
                   (alerts, s1) = checkForAlerts (he_now env) checks s;
                   report = \<lparr>h_overall = overall, h_checks = checks, h_alerts = alerts\<rparr>
               in (Inr report, s1\<lparr>healthHistory := push_capped 100 (healthHistory s1) report\<rparr>))"

text \<open>
  The monitor of the constructor after \<^verbatim>\<open>initialize\<close>, and a check at time 1000000 during
  which the database cannot be reached and the application answers slowly.
\<close>

definition ex_monitor :: health_monitor where
  "ex_monitor =
     \<lparr>hm_isInitialized = True,
      alertThresholds = \<lparr>th_cpu = 80, th_memory = 85, th_disk = 90, th_responseTime = 2000\<rparr>,
      healthHistory = [], lastAlert = None, alertCooldown = 5 * 60 * 1000\<rparr>"

definition ex_health_env :: health_env where
  "ex_health_env =
     \<lparr>he_now = 1000000, systemProbe = Inr (35, 60),
      databaseProbe = Inl ''connection refused'', applicationProbe = Inr (200, 2500),
      networkProbe = Inr 3, diskProbe = Inr (), memoryProbe = Inr 60,
      metricsError = None\<rparr>"

section \<open>CleanupService\<close>

subsection \<open>Directories\<close>

text \<open>
  What a directory of the rule table holds: a tree of entries. A path is the list of names
  from the directory of the rule down to an entry. A file has its modification time, its
  size, and whether \<^verbatim>\<open>fs.remove\<close> can delete it (it cannot when the process lacks the
  permission, for one); a directory says whether \<^verbatim>\<open>fs.readdir\<close> can list it and lists its
  entries by name, in the order \<^verbatim>\<open>fs.readdir\<close> returns them; \<open>Broken\<close> is an entry on which
  \<^verbatim>\<open>fs.stat\<close> always throws; \<open>Other\<close> is neither file nor directory. \<open>Link q rm\<close> is a
  symbolic link to the file at the path \<open>q\<close> of the same tree, with whether \<^verbatim>\<open>fs.remove\<close>
  can delete the link: \<^verbatim>\<open>fs.stat\<close> follows it, so it reads as a file while its target
  is there and throws once the target is gone. The model has links to files only: a link
  whose target is anything but a file reads as a link whose target is gone.
\<close>

type_synonym path = "string list"

datatype node =
    File int nat bool
  | Dir bool "(string \<times> node) list"
  | Broken
  | Other
  | Link path bool

fun lookup :: "node \<Rightarrow> path \<Rightarrow> node option" where
  "lookup n [] = Some n"
| "lookup (Dir r es) (k # ks) = (case map_of es k of None \<Rightarrow> None | Some c \<Rightarrow> lookup c ks)"
| "lookup n (k # ks) = None"

text \<open>
  What \<^verbatim>\<open>fs.stat\<close> reads through a link with target \<open>q\<close>: modification time and size of the
  file there, or \<open>None\<close> when the call throws because no file is there.
\<close>

definition link_target :: "node \<Rightarrow> path \<Rightarrow> (int \<times> nat) option" where
  "link_target base q =
     (case lookup base q of Some (File mt sz rm) \<Rightarrow> Some (mt, sz) | _ \<Rightarrow> None)"

text \<open>
  \<^verbatim>\<open>fs.stat(file)\<close> as \<^verbatim>\<open>cleanupDirectory\<close> uses it, on a path that \<^verbatim>\<open>getFilesInDirectory\<close>
  listed as a file: modification time and size of the file (of the target, for a link), with
  the removability of the entry at the path, or \<open>None\<close> when the call throws because the file
  is not there any more.
\<close>

definition stat :: "node \<Rightarrow> path \<Rightarrow> (int \<times> nat \<times> bool) option" where
  "stat t p =
     (case lookup t p of
        Some (File mt sz rm) \<Rightarrow> Some (mt, sz, rm)
      | Some (Link q rm) \<Rightarrow>
          (case link_target t q of None \<Rightarrow> None | Some st \<Rightarrow> Some (fst st, snd st, rm))
      | _ \<Rightarrow> None)"

text \<open>
  \<^verbatim>\<open>fs.remove(file)\<close> when it succeeds: the entry at the path is gone (the link itself, when
  the entry is a link).
\<close>

fun remove :: "path \<Rightarrow> node \<Rightarrow> node" where
  "remove [] n = n"
| "remove [k] (Dir r es) = Dir r (filter (\<lambda>e. fst e \<noteq> k) es)"
| "remove (k # k' # ks) (Dir r es) =
     Dir r (map (\<lambda>e. if fst e = k then (fst e, remove (k' # ks) (snd e)) else e) es)"
| "remove (k # ks) n = n"

text \<open>No directory lists a name twice.\<close>

fun wf_node :: "node \<Rightarrow> bool" where
  "wf_node (Dir r es) = (distinct (map fst es) \<and> (\<forall>e\<in>set es. wf_node (snd e)))"
| "wf_node n = True"

text \<open>Every file of the tree can be removed; the tree holds no symbolic link.\<close>

fun all_removable :: "node \<Rightarrow> bool" where
  "all_removable (File mt sz rm) = rm"
| "all_removable (Link q rm) = rm"
| "all_removable (Dir r es) = (\<forall>e\<in>set es. all_removable (snd e))"
| "all_removable n = True"

fun no_links :: "node \<Rightarrow> bool" where
  "no_links (Link q rm) = False"
| "no_links (Dir r es) = (\<forall>e\<in>set es. no_links (snd e))"
| "no_links n = True"

text \<open>
  \<^verbatim>\<open>
  async getFilesInDirectory(dirPath, patterns) {
    const files = [];
    try {
      const items = await fs.readdir(dirPath);
      for (const item of items) {
        const fullPath = path.join(dirPath, item);
        const stats = await fs.stat(fullPath);
        if (stats.isDirectory()) {
          const subFiles = await this.getFilesInDirectory(fullPath, patterns);
          files.push(...subFiles);
        } else if (stats.isFile()) {
          if (this.matchesPattern(item, patterns)) files.push(fullPath);
        }
      }
    } catch (error) { this.logger.warn(...); }
    return files;
  }
  \<close>
  \<open>getFilesInDirectory\<close> is the call on a directory, \<open>getFilesOfItems\<close> the loop over its
  items. A \<^verbatim>\<open>readdir\<close> that throws gives no file; a \<^verbatim>\<open>stat\<close> that throws ends the loop
  and keeps the files found so far. \<^verbatim>\<open>fs.stat\<close> follows links, so a link to a file is listed
  as a file, under its own name. \<open>matches\<close> is \<^verbatim>\<open>matchesPattern\<close>, the test of the name
  against the regular expressions made from the patterns; \<open>base\<close> is the tree of the rule's
  directory, in which the targets of links are looked up.
\<close>

fun getFilesInDirectory :: "(string \<Rightarrow> string list \<Rightarrow> bool) \<Rightarrow> string list \<Rightarrow> node \<Rightarrow> path \<Rightarrow> node \<Rightarrow> path list"
  and getFilesOfItems :: "(string \<Rightarrow> string list \<Rightarrow> bool) \<Rightarrow> string list \<Rightarrow> node \<Rightarrow> path \<Rightarrow> (string \<times> node) list \<Rightarrow> path list"
where
  "getFilesInDirectory matches patterns base dirPath (Dir r es) =
     (if r then getFilesOfItems matches patterns base dirPath es else [])"
| "getFilesInDirectory matches patterns base dirPath (File mt sz rm) = []"
| "getFilesInDirectory matches patterns base dirPath Broken = []"
| "getFilesInDirectory matches patterns base dirPath Other = []"
| "getFilesInDirectory matches patterns base dirPath (Link q rm) = []"
| "getFilesOfItems matches patterns base dirPath [] = []"
| "getFilesOfItems matches patterns base dirPath (e # es) =
     (case snd e of
        Broken \<Rightarrow> []
      | Dir r cs \<Rightarrow>
          getFilesInDirectory matches patterns base (dirPath @ [fst e]) (snd e) @
          getFilesOfItems matches patterns base dirPath es
      | File mt sz rm \<Rightarrow>
          (if matches (fst e) patterns then [dirPath @ [fst e]] else []) @
          getFilesOfItems matches patterns base dirPath es
      | Link q rm \<Rightarrow>
          (case link_target base q of
             None \<Rightarrow> []
           | Some st \<Rightarrow>
               (if matches (fst e) patterns then [dirPath @ [fst e]] else []) @
               getFilesOfItems matches patterns base dirPath es)
      | Other \<Rightarrow> getFilesOfItems matches patterns base dirPath es)"

subsection \<open>Rules and results\<close>

text \<open>One entry of \<^verbatim>\<open>this.cleanupRules\<close>; the retention is in days.\<close>

record cleanup_rule =
  enabled :: bool
  retention :: nat
  patterns :: "string list"
  directories :: "string list"

text \<open>The table of the constructor.\<close>

definition default_cleanupRules :: "string \<rightharpoonup> cleanup_rule" where
  "default_cleanupRules =
     [''logs'' \<mapsto> \<lparr>enabled = True, retention = 30, patterns = [''*.log'', ''*.log.*''],
                    directories = [''logs'', ''automation/logs'']\<rparr>,
      ''temp'' \<mapsto> \<lparr>enabled = True, retention = 7, patterns = [''*.tmp'', ''*.temp'', ''temp_*''],
                    directories = [''temp'', ''tmp'', ''automation/temp'']\<rparr>,
      ''backups'' \<mapsto> \<lparr>enabled = True, retention = 90, patterns = [''backup_*'', ''*.backup''],
                       directories = [''backups'', ''automation/backups'']\<rparr>,
      ''reports'' \<mapsto> \<lparr>enabled = True, retention = 180,
                       patterns = [''report_*'', ''health-*'', ''deployment-*''],
                       directories = [''reports'', ''automation/reports'']\<rparr>,
      ''notifications'' \<mapsto> \<lparr>enabled = True, retention = 365, patterns = [''notification-*''],
                             directories = [''notifications'', ''automation/notifications'']\<rparr>,
      ''deployments'' \<mapsto> \<lparr>enabled = True, retention = 365, patterns = [''deployment-*''],
                           directories = [''deployments'', ''automation/deployments'']\<rparr>]"

text \<open>
  The result object of \<^verbatim>\<open>cleanupDirectory\<close> and of \<^verbatim>\<open>cleanupRule\<close>. An error entry keeps
  the path of the file it is about.
\<close>

record cleanup_result =
  filesFound :: nat
  filesDeleted :: nat
  bytesFreed :: nat
  errors :: "path list"

definition empty_result :: cleanup_result where
  "empty_result = \<lparr>filesFound = 0, filesDeleted = 0, bytesFreed = 0, errors = []\<rparr>"

text \<open>
  The two log lines that report files: \<^verbatim>\<open>[DRY RUN] Would delete: <file> (<size>)\<close> and
  \<^verbatim>\<open>Deleted: <file> (<size>)\<close>.
\<close>

datatype cleanup_log = WouldDelete path nat | Deleted path nat

text \<open>
  The loop of \<^verbatim>\<open>cleanupDirectory\<close> over the files listed:
  \<^verbatim>\<open>
  for (const file of files) {
    try {
      const stats = await fs.stat(file);
      result.filesFound++;
      if (stats.mtime < cutoffDate) {
        if (dryRun) {
          this.logger.info(`[DRY RUN] Would delete: ${file} (...)`);
        } else {
          await fs.remove(file);
          result.filesDeleted++;
          result.bytesFreed += stats.size;
          this.logger.info(`Deleted: ${file} (...)`);
        }
      }
    } catch (error) {
      result.errors.push(`File ${file}: ${error.message}`);
    }
  }
  \<close>
\<close>

fun cleanup_files :: "bool \<Rightarrow> int \<Rightarrow> path list \<Rightarrow> cleanup_result \<times> cleanup_log list \<times> node \<Rightarrow> cleanup_result \<times> cleanup_log list \<times> node" where
  "cleanup_files dryRun cutoff [] acc = acc"
| "cleanup_files dryRun cutoff (file # files) (result, logged, t) =
     cleanup_files dryRun cutoff files
       (case stat t file of
          None \<Rightarrow> (result\<lparr>errors := errors result @ [file]\<rparr>, logged, t)
        | Some (mtime, sz, removable) \<Rightarrow>
            let found = result\<lparr>filesFound := filesFound result + 1\<rparr>
            in if mtime < cutoff
               then (if dryRun then (found, logged @ [WouldDelete file sz], t)
                     else if removable
                     then (found\<lparr>filesDeleted := filesDeleted found + 1,
                                 bytesFreed := bytesFreed found + sz\<rparr>,
                           logged @ [Deleted file sz], remove file t)
                     else (found\<lparr>errors := errors found @ [file]\<rparr>, logged, t))
               else (found, logged, t))"

text \<open>
  \<^verbatim>\<open>cleanupDirectory\<close> (lines 185 to 228), given its cutoff date: the listing, the loop.
\<close>

definition cleanupDirectory :: "(string \<Rightarrow> string list \<Rightarrow> bool) \<Rightarrow> int \<Rightarrow> cleanup_rule \<Rightarrow> bool \<Rightarrow> node \<Rightarrow> cleanup_result \<times> cleanup_log list \<times> node" where
  "cleanupDirectory matches cutoff rule dryRun t =
     cleanup_files dryRun cutoff (getFilesInDirectory matches (patterns rule) t [] t)
       (empty_result, [], t)"

text \<open>
  The state a cleanup acts on: the module's fields, the content of each directory of the
  rule table by its name in the table (\<open>None\<close>: \<^verbatim>\<open>fs.pathExists\<close> is false), and the two
  kinds of log lines written so far, each with the rule being processed. The directories of
  the table are separate subtrees of the automation root, none inside another (and none a
  link to another), so each has a tree of its own.
\<close>

record cleanup_record =
  c_id :: string
  c_rules :: "string list"
  c_dryRun :: bool
  c_results :: "(string \<times> cleanup_result) list"
  c_duration :: int

record cleanup_service =
  cs_isInitialized :: bool
  cleanupRules :: "string \<rightharpoonup> cleanup_rule"
  cleanupHistory :: "cleanup_record list"
  cs_files :: "string \<rightharpoonup> node"
  cs_log :: "(string \<times> cleanup_log) list"

text \<open>
  What one run reads from outside: its id and duration, the \<open>k\<close>-th reading of the clock
  taken by \<^verbatim>\<open>moment()\<close> in \<^verbatim>\<open>cleanupDirectory\<close>, the date that
  \<^verbatim>\<open>.subtract(n, 'days')\<close> makes of a reading (calendar days of the local time zone), and
  the pattern test. \<open>cutoffDate\<close> is
  \<^verbatim>\<open>moment().subtract(rule.retention, 'days').toDate()\<close> at the \<open>k\<close>-th reading.
\<close>

record cleanup_env =
  ce_id :: string
  ce_duration :: int
  cleanupClock :: "nat \<Rightarrow> int"
  subtractDays :: "int \<Rightarrow> nat \<Rightarrow> int"
  matchesPattern :: "string \<Rightarrow> string list \<Rightarrow> bool"

definition cutoffDate :: "cleanup_env \<Rightarrow> nat \<Rightarrow> cleanup_rule \<Rightarrow> int" where
  "cutoffDate env k rule = subtractDays env (cleanupClock env k) (retention rule)"

text \<open>
  The loop of \<^verbatim>\<open>cleanupRule\<close> over \<^verbatim>\<open>rule.directories\<close>:
  \<^verbatim>\<open>
  for (const dir of rule.directories) {
    try {
      const dirPath = path.join(__dirname, '..', dir);
      if (!await fs.pathExists(dirPath)) { ...; continue; }
      const dirResult = await this.cleanupDirectory(dirPath, rule, { dryRun, force });
      result.filesFound += dirResult.filesFound;
      result.filesDeleted += dirResult.filesDeleted;
      result.bytesFreed += dirResult.bytesFreed;
      result.errors.push(...dirResult.errors);
    } catch (error) { result.errors.push(`Directory ${dir}: ${error.message}`); }
  }
  \<close>
  \<open>k\<close> counts the clock readings taken so far in the run.
\<close>

definition add_result :: "cleanup_result \<Rightarrow> cleanup_result \<Rightarrow> cleanup_result" where
  "add_result result dirResult =
     \<lparr>filesFound = filesFound result + filesFound dirResult,
      filesDeleted = filesDeleted result + filesDeleted dirResult,
      bytesFreed = bytesFreed result + bytesFreed dirResult,
      errors = errors result @ errors dirResult\<rparr>"

fun cleanup_dirs :: "cleanup_env \<Rightarrow> cleanup_rule \<Rightarrow> bool \<Rightarrow> string list \<Rightarrow> cleanup_result \<times> cleanup_log list \<times> (string \<rightharpoonup> node) \<times> nat \<Rightarrow> cleanup_result \<times> cleanup_log list \<times> (string \<rightharpoonup> node) \<times> nat" where
  "cleanup_dirs env rule dryRun [] acc = acc"
| "cleanup_dirs env rule dryRun (dir # dirs) (result, logged, files, k) =
     cleanup_dirs env rule dryRun dirs
       (case files dir of
          None \<Rightarrow> (result, logged, files, k)
        | Some t \<Rightarrow>
            (case cleanupDirectory (matchesPattern env) (cutoffDate env k rule) rule dryRun t of
               (dirResult, dirLog, t') \<Rightarrow>
                 (add_result result dirResult, logged @ dirLog, files(dir \<mapsto> t'), Suc k)))"

definition cleanupRule :: "cleanup_env \<Rightarrow> cleanup_rule \<Rightarrow> bool \<Rightarrow> (string \<rightharpoonup> node) \<times> nat \<Rightarrow> cleanup_result \<times> cleanup_log list \<times> (string \<rightharpoonup> node) \<times> nat" where
  "cleanupRule env rule dryRun fk =
     cleanup_dirs env rule dryRun (directories rule) (empty_result, [], fst fk, snd fk)"

text \<open>
  The loop of \<^verbatim>\<open>performCleanup\<close> over the rule names:
  \<^verbatim>\<open>
  for (const ruleName of rules) {
    const rule = this.cleanupRules[ruleName];
    if (!rule || !rule.enabled) { ...; continue; }
    try {
      const result = await this.cleanupRule(ruleName, rule, { dryRun, force });
      cleanup.results[ruleName] = result;
    } catch (error) { cleanup.errors.push(`${ruleName}: ${error.message}`); }
  }
  \<close>
  \<^verbatim>\<open>cleanupRule\<close> catches whatever its directories throw, so the \<^verbatim>\<open>catch\<close> here is never
  entered. \<open>set_result\<close> is the assignment \<^verbatim>\<open>cleanup.results[ruleName] = result\<close>.
\<close>

fun set_result :: "(string \<times> cleanup_result) list \<Rightarrow> string \<Rightarrow> cleanup_result \<Rightarrow> (string \<times> cleanup_result) list" where
  "set_result [] k v = [(k, v)]"
| "set_result (e # es) k v = (if fst e = k then (k, v) # es else e # set_result es k v)"

fun cleanup_rules :: "cleanup_env \<Rightarrow> (string \<rightharpoonup> cleanup_rule) \<Rightarrow> bool \<Rightarrow> string list \<Rightarrow> (string \<times> cleanup_result) list \<times> (string \<times> cleanup_log) list \<times> (string \<rightharpoonup> node) \<times> nat \<Rightarrow> (string \<times> cleanup_result) list \<times> (string \<times> cleanup_log) list \<times> (string \<rightharpoonup> node) \<times> nat" where
  "cleanup_rules env table dryRun [] acc = acc"
| "cleanup_rules env table dryRun (ruleName # rest) (results, logged, files, k) =
     cleanup_rules env table dryRun rest
       (case table ruleName of
          None \<Rightarrow> (results, logged, files, k)
        | Some rule \<Rightarrow>
            if \<not> enabled rule then (results, logged, files, k)
            else
              (case cleanupRule env rule dryRun (files, k) of
                 (result, ruleLog, files', k') \<Rightarrow>
                   (set_result results ruleName result,
                    logged @ map (\<lambda>l. (ruleName, l)) ruleLog, files', k')))"

text \<open>
  \<^verbatim>\<open>performCleanup\<close> (lines 81 to 145), with the options after their defaults: the guard,
  the loop, the record, which is stored (the last 50 are kept) and returned.
\<close>

record cleanup_options =
  co_rules :: "string list"
  co_dryRun :: bool

definition performCleanup :: "cleanup_env \<Rightarrow> cleanup_options \<Rightarrow> cleanup_service \<Rightarrow> (error + cleanup_record) \<times> cleanup_service" where
  "performCleanup env opts s =
     (if \<not> cs_isInitialized s then (Inl (NotInitialized ''CleanupService''), s)
      else
        case cleanup_rules env (cleanupRules s) (co_dryRun opts) (co_rules opts) ([], [], cs_files s, 0) of
          (results, logged, files, k) \<Rightarrow>
            let cleanup = \<lparr>c_id = ce_id env, c_rules = co_rules opts, c_dryRun = co_dryRun opts,
                            c_results = results, c_duration = ce_duration env\<rparr>
            in (Inr cleanup,
                s\<lparr>cleanupHistory := push_capped 50 (cleanupHistory s) cleanup,
                  cs_files := files, cs_log := cs_log s @ logged\<rparr>))"

text \<open>
  What the two runs report for a rule: the number of \<open>Would delete\<close> lines a run logged while
  processing the rule, and the \<^verbatim>\<open>filesDeleted\<close> of the rule in the record a run returned.
\<close>

definition is_would :: "cleanup_log \<Rightarrow> bool" where
  "is_would l = (case l of WouldDelete p n \<Rightarrow> True | Deleted p n \<Rightarrow> False)"

definition would_delete_count :: "string \<Rightarrow> (string \<times> cleanup_log) list \<Rightarrow> nat" where
  "would_delete_count ruleName logged =
     length (filter (\<lambda>l. fst l = ruleName \<and> is_would (snd l)) logged)"

definition files_deleted :: "string \<Rightarrow> error + cleanup_record \<Rightarrow> nat" where
  "files_deleted ruleName r =
     (case r of
        Inl e \<Rightarrow> 0
      | Inr c \<Rightarrow> (case map_of (c_results c) ruleName of None \<Rightarrow> 0 | Some res \<Rightarrow> filesDeleted res))"

text \<open>
  The files of a listing that the loop of \<^verbatim>\<open>cleanupDirectory\<close> finds older than the
  cutoff, and their number for one directory: what a run is expected to delete there.
\<close>

definition doomed :: "int \<Rightarrow> node \<Rightarrow> path list \<Rightarrow> path list" where
  "doomed cutoff t ps =
     filter (\<lambda>p. case stat t p of None \<Rightarrow> False | Some st \<Rightarrow> fst st < cutoff) ps"

definition expected_deletions :: "(string \<Rightarrow> string list \<Rightarrow> bool) \<Rightarrow> int \<Rightarrow> cleanup_rule \<Rightarrow> node \<Rightarrow> nat" where
  "expected_deletions m cutoff rule t =
     length (doomed cutoff t (getFilesInDirectory m (patterns rule) t [] t))"

text \<open>
  The same for the directories of a rule, from the \<open>k\<close>-th clock reading on: the number of
  files, and the number of clock readings taken when the loop is over.
\<close>

fun expected_dirs :: "cleanup_env \<Rightarrow> cleanup_rule \<Rightarrow> (string \<rightharpoonup> node) \<Rightarrow> string list \<Rightarrow> nat \<Rightarrow> nat \<times> nat" where
  "expected_dirs env rule files [] k = (0, k)"
| "expected_dirs env rule files (d # ds) k =
     (case files d of
        None \<Rightarrow> expected_dirs env rule files ds k
      | Some t \<Rightarrow>
          (expected_deletions (matchesPattern env) (cutoffDate env k rule) rule t +
             fst (expected_dirs env rule files ds (Suc k)),
           snd (expected_dirs env rule files ds (Suc k))))"

text \<open>
  The directories a rule name makes \<^verbatim>\<open>performCleanup\<close> visit (none when the name is not in
  the table or the rule is disabled), the \<^verbatim>\<open>filesDeleted\<close> of a rule in the results
  collected so far, and the rule of the constructor's table that owns a directory.
\<close>

definition rule_directories :: "(string \<rightharpoonup> cleanup_rule) \<Rightarrow> string \<Rightarrow> string list" where
  "rule_directories table ruleName =
     (case table ruleName of
        None \<Rightarrow> []
      | Some rule \<Rightarrow> if enabled rule then directories rule else [])"

definition rule_deleted :: "string \<Rightarrow> (string \<times> cleanup_result) list \<Rightarrow> nat" where
  "rule_deleted ruleName results =
     (case map_of results ruleName of None \<Rightarrow> 0 | Some res \<Rightarrow> filesDeleted res)"

definition directory_rule :: "string \<Rightarrow> string" where
  "directory_rule d =
     (if d = ''logs'' \<or> d = ''automation/logs'' then ''logs''
      else if d = ''temp'' \<or> d = ''tmp'' \<or> d = ''automation/temp'' then ''temp''
      else if d = ''backups'' \<or> d = ''automation/backups'' then ''backups''
      else if d = ''reports'' \<or> d = ''automation/reports'' then ''reports''
      else if d = ''notifications'' \<or> d = ''automation/notifications'' then ''notifications''
      else ''deployments'')"

text \<open>
  Examples. The clock reads 1000000000 ms throughout and a day has 24 hours, so the cutoff of
  the \<open>temp\<close> rule (7 days) is 395200000: \<open>temp_old\<close> and \<open>cache/temp_session\<close> are older,
  \<open>temp_new\<close> is not, and \<open>keep.txt\<close> matches no pattern of the rule. \<open>ex_matches\<close> is
  \<^verbatim>\<open>matchesPattern\<close> on the names of the examples: of the patterns of the \<open>temp\<close> rule,
  \<^verbatim>\<open>*.tmp\<close> and \<^verbatim>\<open>*.temp\<close> match none of them, and \<^verbatim>\<open>temp_*\<close>, the regular expression
  \<^verbatim>\<open>^temp_.*$\<close>, matches the names that begin with \<open>temp_\<close>. In \<open>ex_locked_tree\<close> the one old
  file cannot be removed. In \<open>ex_linked_tree\<close> an old file is followed by a link to it; both
  can be removed.
\<close>

definition ex_matches :: "string \<Rightarrow> string list \<Rightarrow> bool" where
  "ex_matches filename pats = (''temp_*'' \<in> set pats \<and> take 5 filename = ''temp_'')"

definition ex_temp_tree :: node where
  "ex_temp_tree =
     Dir True [(''temp_old'', File 1000 2048 True),
               (''cache'', Dir True [(''temp_session'', File 2000 512 True)]),
               (''temp_new'', File 900000000 64 True),
               (''keep.txt'', File 1000 10 True)]"

definition ex_locked_tree :: node where
  "ex_locked_tree = Dir True [(''temp_old'', File 1000 2048 False)]"

definition ex_linked_tree :: node where
  "ex_linked_tree =
     Dir True [(''temp_a'', File 1000 2048 True), (''temp_b'', Link [''temp_a''] True)]"

definition ex_cleaner :: cleanup_service where
  "ex_cleaner =
     \<lparr>cs_isInitialized = True, cleanupRules = default_cleanupRules, cleanupHistory = [],
      cs_files = [''temp'' \<mapsto> ex_temp_tree], cs_log = []\<rparr>"

definition ex_cleaner_locked :: cleanup_service where
  "ex_cleaner_locked =
     \<lparr>cs_isInitialized = True, cleanupRules = default_cleanupRules, cleanupHistory = [],
      cs_files = [''temp'' \<mapsto> ex_locked_tree], cs_log = []\<rparr>"

definition ex_cleaner_linked :: cleanup_service where
  "ex_cleaner_linked =
     \<lparr>cs_isInitialized = True, cleanupRules = default_cleanupRules, cleanupHistory = [],
      cs_files = [''temp'' \<mapsto> ex_linked_tree], cs_log = []\<rparr>"

definition ex_cleanup_env :: cleanup_env where
  "ex_cleanup_env =
     \<lparr>ce_id = ''cleanup_1'', ce_duration = 12, cleanupClock = (\<lambda>k. 1000000000),
      subtractDays = (\<lambda>now days. now - int days * 86400000),
      matchesPattern = ex_matches\<rparr>"

chapter \<open>Verification\<close>

section \<open>The rate limiter\<close>

lemma filter_prefix_bound:
  assumes "\<forall>i<length xs. P (xs ! i) \<longrightarrow> i < k"
  shows "length (filter P xs) \<le> k"
proof -
  have "{i. i < length xs \<and> P (xs ! i)} \<subseteq> {..<k}" using assms by auto
  then have "card {i. i < length xs \<and> P (xs ! i)} \<le> card {..<k}"
    by (intro card_mono) auto
  then show ?thesis by (simp add: length_filter_conv_card)
qed

lemma checkRateLimit_calls_length:
  "length (fst (checkRateLimit_calls c ts rl)) = length ts"
  by (induction ts arbitrary: rl) (simp_all add: case_prod_beta Let_def)

lemma checkRateLimit_no_reset:
  assumes "rl c = Some l" and "now \<le> resetTime l"
  shows "checkRateLimit c now rl =
           (if count l \<ge> limit l
            then (Inl (RateLimitExceeded c (ceil_div (resetTime l - now) 1000)), rl)
            else (Inr (), rl(c \<mapsto> l\<lparr>count := count l + 1\<rparr>)))"
  using assms by (auto simp: checkRateLimit_def window_reset_def Let_def fun_upd_idem)

lemma checkRateLimit_calls_no_reset:
  assumes "rl c = Some l" and "\<forall>t\<in>set ts. t \<le> resetTime l" and "i < length ts"
  shows "fst (checkRateLimit_calls c ts rl) ! i =
           (if count l + i < limit l then Inr ()
            else Inl (RateLimitExceeded c (ceil_div (resetTime l - ts ! i) 1000)))"
  using assms
proof (induction ts arbitrary: rl l i)
  case Nil
  then show ?case by simp
next
  case (Cons t ts)
  have t: "t \<le> resetTime l" using Cons.prems(2) by simp
  note step = checkRateLimit_no_reset [of rl c l t, OF Cons.prems(1) t]
  show ?case
  proof (cases "count l \<ge> limit l")
    case True
    then have st: "checkRateLimit c t rl = (Inl (RateLimitExceeded c (ceil_div (resetTime l - t) 1000)), rl)"
      using step by simp
    show ?thesis
    proof (cases i)
      case 0
      then show ?thesis using st True by (simp add: case_prod_beta Let_def)
    next
      case (Suc j)
      then have "j < length ts" using Cons.prems(3) by simp
      from Cons.IH [of rl l j, OF Cons.prems(1) _ this] Cons.prems(2)
      show ?thesis using st True Suc by (simp add: case_prod_beta Let_def)
    qed
  next
    case False
    let ?l' = "l\<lparr>count := count l + 1\<rparr>"
    from False have st: "checkRateLimit c t rl = (Inr (), rl(c \<mapsto> ?l'))"
      using step by simp
    show ?thesis
    proof (cases i)
      case 0
      then show ?thesis using st False by (simp add: case_prod_beta Let_def)
    next
      case (Suc j)
      then have j: "j < length ts" using Cons.prems(3) by simp
      have ih: "fst (checkRateLimit_calls c ts (rl(c \<mapsto> ?l'))) ! j =
           (if count ?l' + j < limit ?l' then Inr ()
            else Inl (RateLimitExceeded c (ceil_div (resetTime ?l' - ts ! j) 1000)))"
      proof (rule Cons.IH)
        show "(rl(c \<mapsto> ?l')) c = Some ?l'" by simp
        show "\<forall>t\<in>set ts. t \<le> resetTime ?l'" using Cons.prems(2) by simp
        show "j < length ts" by (rule j)
      qed
      show ?thesis using st False Suc ih by (simp add: case_prod_beta Let_def)
    qed
  qed
qed

lemma checkRateLimit_reset_first:
  assumes "rl c = Some l" and "t0 \<le> resetTime (window_reset t0 l)"
  shows "checkRateLimit c t0 rl = checkRateLimit c t0 (rl(c \<mapsto> window_reset t0 l))"
proof -
  have "window_reset t0 (window_reset t0 l) = window_reset t0 l"
    using assms(2) by (simp add: window_reset_def)
  then show ?thesis using assms(1) by (simp add: checkRateLimit_def Let_def)
qed

text \<open>
  Claim C4. Take any channel with an entry in the rate-limit table and any window of that
  entry: the window is either opened by the first call \<open>t0\<close> (which finds the previous window
  elapsed and resets the counter) or is the fresh window the counter starts in, and every call
  of the sequence falls inside it. Then the calls \<open>checkRateLimit\<close> accepts are exactly the
  first \<open>limit\<close> ones, so their number never exceeds the limit, and every later call, the
  \<open>(limit+1)\<close>-th first, is rejected with the rate-limit error that carries the seconds left
  until the window ends.
\<close>

theorem checkRateLimit_window_bound:
  assumes "rl c = Some l"
    and "count (window_reset t0 l) = 0"
    and "\<forall>t\<in>set (t0 # ts). t \<le> resetTime (window_reset t0 l)"
  shows "accepted (fst (checkRateLimit_calls c (t0 # ts) rl)) \<le> limit l \<and>
         (\<forall>i<length (t0 # ts).
            fst (checkRateLimit_calls c (t0 # ts) rl) ! i =
              (if i < limit l then Inr ()
               else Inl (RateLimitExceeded c
                      (ceil_div (resetTime (window_reset t0 l) - (t0 # ts) ! i) 1000))))"
proof -
  let ?l = "window_reset t0 l"
  let ?rl = "rl(c \<mapsto> ?l)"
  have t0: "t0 \<le> resetTime ?l" using assms(3) by simp
  have same: "checkRateLimit_calls c (t0 # ts) rl = checkRateLimit_calls c (t0 # ts) ?rl"
    using checkRateLimit_reset_first [of rl c l t0, OF assms(1) t0] by simp
  have lim: "limit ?l = limit l" by (simp add: window_reset_def)
  have pt: "\<forall>i<length (t0 # ts).
            fst (checkRateLimit_calls c (t0 # ts) rl) ! i =
              (if i < limit l then Inr ()
               else Inl (RateLimitExceeded c (ceil_div (resetTime ?l - (t0 # ts) ! i) 1000)))"
  proof (intro allI impI)
    fix i assume i: "i < length (t0 # ts)"
    have "?rl c = Some ?l" by simp
    from checkRateLimit_calls_no_reset [of ?rl c ?l "t0 # ts" i, OF this assms(3) i]
    show "fst (checkRateLimit_calls c (t0 # ts) rl) ! i =
              (if i < limit l then Inr ()
               else Inl (RateLimitExceeded c (ceil_div (resetTime ?l - (t0 # ts) ! i) 1000)))"
      unfolding same using assms(2) lim by simp
  qed
  have "length (filter (\<lambda>r. \<not> isl r) (fst (checkRateLimit_calls c (t0 # ts) rl))) \<le> limit l"
  proof (rule filter_prefix_bound, intro allI impI)
    fix i
    assume "i < length (fst (checkRateLimit_calls c (t0 # ts) rl))"
      and ok: "\<not> isl (fst (checkRateLimit_calls c (t0 # ts) rl) ! i)"
    then have "i < length (t0 # ts)" by (simp only: checkRateLimit_calls_length)
    with pt ok show "i < limit l" by (auto split: if_splits)
  qed
  with pt show ?thesis by (simp only: accepted_def)
qed

theorem checkRateLimit_window_bound_witness:
  "accepted (fst (checkRateLimit_calls ''email'' [1001, 1002, 1003]
       [''email'' \<mapsto> \<lparr>limit = 2, window = 60000, count = 2, resetTime = 1000\<rparr>])) \<le> 2
   \<and> fst (checkRateLimit_calls ''email'' [1001, 1002, 1003]
       [''email'' \<mapsto> \<lparr>limit = 2, window = 60000, count = 2, resetTime = 1000\<rparr>]) ! 2
     = Inl (RateLimitExceeded ''email'' 60)"
proof -
  let ?l = "\<lparr>limit = 2, window = 60000, count = 2, resetTime = 1000\<rparr>"
  let ?rl = "[''email'' \<mapsto> ?l]"
  have h1: "?rl ''email'' = Some ?l" by simp
  have h2: "count (window_reset 1001 ?l) = 0" by (simp add: window_reset_def)
  have h3: "\<forall>t\<in>set (1001 # [1002, 1003]). t \<le> resetTime (window_reset 1001 ?l)"
    by (simp add: window_reset_def)
  note r = checkRateLimit_window_bound [of ?rl "''email''" ?l 1001 "[1002, 1003]", OF h1 h2 h3]
  from r have a: "accepted (fst (checkRateLimit_calls ''email'' [1001, 1002, 1003] ?rl)) \<le> 2"
    by simp
  from r [THEN conjunct2, rule_format, of 2]
  have b: "fst (checkRateLimit_calls ''email'' [1001, 1002, 1003] ?rl) ! 2
     = Inl (RateLimitExceeded ''email'' 60)"
    by (simp add: window_reset_def ceil_div_def)
  from a b show ?thesis by simp
qed

section \<open>NotificationService: the upfront rate-limit gate\<close>



lemma checkRateLimit_error_kind:
  "fst (checkRateLimit c now rl) = Inl e \<Longrightarrow> \<exists>w. e = RateLimitExceeded c w"
  by (auto simp: checkRateLimit_def Let_def split: option.splits if_splits)





section \<open>NotificationService: the history\<close>

lemma checkRateLimits_error_kind:
  "fst (checkRateLimits clk k cs rl) = Inl e \<Longrightarrow> \<exists>c w. e = RateLimitExceeded c w"
proof (induction cs arbitrary: k rl)
  case Nil
  then show ?case by simp
next
  case (Cons h cs)
  obtain r rl1 where st: "checkRateLimit h (clk k) rl = (r, rl1)"
    by (cases "checkRateLimit h (clk k) rl")
  show ?case
  proof (cases r)
    case (Inl e')
    then have "e = e'" using Cons.prems st by simp
    then show ?thesis using checkRateLimit_error_kind [of h "clk k" rl e'] st Inl by auto
  next
    case (Inr u)
    then have "fst (checkRateLimits clk (Suc k) cs rl1) = Inl e" using Cons.prems st by simp
    then show ?thesis by (rule Cons.IH)
  qed
qed

lemma sendNotification_error_kind:
  assumes "fst (sendNotification env opts s) = Inl e"
  shows "e = NotInitialized ''NotificationService'' \<or> (\<exists>c w. e = RateLimitExceeded c w)"
proof (cases "ns_isInitialized s")
  case False
  then show ?thesis using assms by (simp add: sendNotification_def)
next
  case True
  obtain r rl1 where st: "checkRateLimits (precheckClock env) 0 (o_channels opts) (ns_rateLimits s) = (r, rl1)"
    by (cases "checkRateLimits (precheckClock env) 0 (o_channels opts) (ns_rateLimits s)")
  show ?thesis
  proof (cases r)
    case (Inl e')
    then have "e = e'" using assms True st by (simp add: sendNotification_def Let_def)
    then show ?thesis
      using checkRateLimits_error_kind [of "precheckClock env" 0 "o_channels opts" "ns_rateLimits s" e'] st Inl
      by auto
  next
    case (Inr u)
    then show ?thesis using assms True st
      by (simp add: sendNotification_def Let_def case_prod_beta)
  qed
qed







section \<open>The scheduler: a failing job\<close>

lemma sendAlert_error_kind:
  assumes "fst (sendAlert env a s) = Inl e"
  shows "e = NotInitialized ''NotificationService'' \<or> (\<exists>c w. e = RateLimitExceeded c w)"
  using assms unfolding sendAlert_def by (rule sendNotification_error_kind)

lemma scheduled_callback_tasks:
  "scheduledTasks (snd (scheduled_callback name task env sys)) = scheduledTasks sys"
  by (simp add: scheduled_callback_def split: prod.splits option.splits sum.splits)

lemma fire_tasks: "scheduledTasks (snd (fire name env sys)) = scheduledTasks sys"
  by (simp add: fire_def scheduled_callback_tasks split: option.splits)

text \<open>
  A registered, running job fires and its handler throws an error with message \<open>msg\<close>. The
  callback catches it and calls \<^verbatim>\<open>sendAlert\<close> with severity \<open>high\<close>; the table of scheduled
  tasks is the same afterwards, so the job is still registered and running for the next
  firing. The \<^verbatim>\<open>await\<close> of \<^verbatim>\<open>sendAlert\<close> stands unguarded in the \<^verbatim>\<open>catch\<close> block (line 123):
  the callback's promise settles as that call does, so an error thrown by \<^verbatim>\<open>sendAlert\<close>
  is the callback's own.
\<close>

lemma failed_job_callback:
  assumes "scheduledTasks sys name = Some j" and "running j"
    and "handler j (notificationService sys) = (Some msg, ns1)"
  shows "scheduledTasks (snd (fire name env sys)) = scheduledTasks sys \<and>
         notificationService (snd (fire name env sys)) =
           snd (sendAlert env (task_failed_alert name msg) ns1) \<and>
         a_severity (task_failed_alert name msg) = ''high'' \<and>
         fst (fire name env sys) =
           (case fst (sendAlert env (task_failed_alert name msg) ns1) of
              Inl e \<Rightarrow> Inl e | Inr n \<Rightarrow> Inr ())"
proof -
  let ?alert = "sendAlert env (task_failed_alert name msg) ns1"
  have f: "fire name env sys =
             (case ?alert of
                (Inl e, ns2) \<Rightarrow> (Inl e, sys\<lparr>notificationService := ns2\<rparr>)
              | (Inr n, ns2) \<Rightarrow> (Inr (), sys\<lparr>notificationService := ns2\<rparr>))"
    using assms by (simp add: fire_def scheduled_callback_def)
  have a: "scheduledTasks (snd (fire name env sys)) = scheduledTasks sys" by (rule fire_tasks)
  have b: "notificationService (snd (fire name env sys)) = snd ?alert"
    unfolding f by (simp split: prod.splits sum.splits)
  have c: "a_severity (task_failed_alert name msg) = ''high''" by (simp add: task_failed_alert_def)
  have d: "fst (fire name env sys) = (case fst ?alert of Inl e \<Rightarrow> Inl e | Inr n \<Rightarrow> Inr ())"
    unfolding f by (simp split: prod.splits sum.splits)
  from a b c d show ?thesis by blast
qed


section \<open>DatabaseBackup: cloud uploads\<close>

lemma updateBackupStats_upload_indep:
  "updateBackupStats (env\<lparr>s3UploadError := x, driveUploadError := y\<rparr>) k p b s =
   updateBackupStats env k p b s"
  by (simp add: updateBackupStats_def getFileSize_def Let_def split: option.splits)

lemma backup_failed_upload_indep:
  "backup_failed (env\<lparr>s3UploadError := x, driveUploadError := y\<rparr>) k e s = backup_failed env k e s"
  by (simp add: backup_failed_def updateBackupStats_upload_indep)

lemma uploadToCloud_targets:
  "map fst (fst (uploadToCloud env name s)) =
     (if s3 s \<and> truthy_string (s3Bucket s) then [''s3''] else []) @
     (if drive s \<and> truthy_string (driveFolderId s) then [''googleDrive''] else [])"
  by (simp add: uploadToCloud_def uploadToS3_def uploadToGoogleDrive_def Let_def
      split: option.splits)

lemma uploadToCloud_local:
  "snd (uploadToCloud env name s) =
     s\<lparr>s3Objects := s3Objects (snd (uploadToCloud env name s)),
       driveFiles := driveFiles (snd (uploadToCloud env name s))\<rparr>"
  by (simp add: uploadToCloud_def uploadToS3_def uploadToGoogleDrive_def Let_def
      split: option.splits)

lemma uploadToCloud_s3Objects:
  "s3Objects (snd (uploadToCloud env name s)) =
     (if s3 s \<and> truthy_string (s3Bucket s) \<and> s3UploadError env = None
      then s3Objects s @ [''backups/'' @ name @ ''.zip''] else s3Objects s)"
  by (simp add: uploadToCloud_def uploadToS3_def uploadToGoogleDrive_def Let_def
      split: option.splits)

lemma uploadToCloud_driveFiles:
  "driveFiles (snd (uploadToCloud env name s)) =
     (if drive s \<and> truthy_string (driveFolderId s) \<and> driveUploadError env = None
      then driveFiles s @ [name @ ''.zip''] else driveFiles s)"
  by (simp add: uploadToCloud_def uploadToS3_def uploadToGoogleDrive_def Let_def
      split: option.splits)

lemma updateBackupStats_forget:
  "updateBackupStats env k p b (s\<lparr>s3Objects := a, driveFiles := d\<rparr>) =
     (fst (updateBackupStats env k p b s), (snd (updateBackupStats env k p b s))\<lparr>s3Objects := a, driveFiles := d\<rparr>)"
  by (simp add: updateBackupStats_def Let_def split: option.splits)

lemma backup_failed_forget:
  "backup_failed env k e (s\<lparr>s3Objects := a, driveFiles := d\<rparr>) =
     (fst (backup_failed env k e s), (snd (backup_failed env k e s))\<lparr>s3Objects := a, driveFiles := d\<rparr>)"
  by (simp add: backup_failed_def updateBackupStats_forget split: prod.splits sum.splits)

lemma getCloudStorageStatus_forget:
  "getCloudStorageStatus (s\<lparr>s3Objects := a, driveFiles := d\<rparr>) = getCloudStorageStatus s"
  by (simp add: getCloudStorageStatus_def)

lemma updateBackupStats_config:
  "s3 (snd (updateBackupStats env k p b s)) = s3 s \<and> drive (snd (updateBackupStats env k p b s)) = drive s"
  by (simp add: updateBackupStats_def Let_def split: option.splits)

lemma performBackup_after_upload:
  assumes "db_isInitialized s" "ensureDirError env = None" "exportError env = None" "archiveError env = None"
    and U: "updateBackupStats env 0 True True s = (r, s2)"
    and ad: "a = s3Objects (snd (uploadToCloud env (backupName env) s))"
            "d = driveFiles (snd (uploadToCloud env (backupName env) s))"
  shows "performBackup env s =
     (case r of
        Inl e \<Rightarrow> (fst (backup_failed env 1 e s2),
                   (snd (backup_failed env 1 e s2))\<lparr>s3Objects := a, driveFiles := d\<rparr>)
      | Inr u \<Rightarrow> (Inr (backup_record_of env s),
                   s2\<lparr>s3Objects := a, driveFiles := d, lastBackup := Some (backup_record_of env s)\<rparr>))"
proof -
  obtain ups s1 where up: "uploadToCloud env (backupName env) s = (ups, s1)"
    by (cases "uploadToCloud env (backupName env) s")
  have s1: "s1 = s\<lparr>s3Objects := a, driveFiles := d\<rparr>"
    using uploadToCloud_local [of env "backupName env" s] up ad by simp
  have U1: "updateBackupStats env 0 True True s1 = (r, s2\<lparr>s3Objects := a, driveFiles := d\<rparr>)"
    unfolding s1 updateBackupStats_forget U by simp
  have cfg: "getCloudStorageStatus s2 = getCloudStorageStatus s"
    using updateBackupStats_config [of env 0 True True s] U by (simp add: getCloudStorageStatus_def)
  show ?thesis
  proof (cases r)
    case (Inl e)
    then show ?thesis using assms(1-4) up U1
      by (simp add: performBackup_def backup_failed_forget)
  next
    case (Inr u)
    then show ?thesis using assms(1-4) up U1 cfg
      by (simp add: performBackup_def Let_def backup_record_of_def getCloudStorageStatus_forget)
  qed
qed

lemma performBackup_upload_indep:
  "fst (performBackup (env\<lparr>s3UploadError := x, driveUploadError := y\<rparr>) s) = fst (performBackup env s) \<and>
   backupStats (snd (performBackup (env\<lparr>s3UploadError := x, driveUploadError := y\<rparr>) s)) =
     backupStats (snd (performBackup env s)) \<and>
   lastBackup (snd (performBackup (env\<lparr>s3UploadError := x, driveUploadError := y\<rparr>) s)) =
     lastBackup (snd (performBackup env s))"
proof (cases "db_isInitialized s \<and> ensureDirError env = None \<and> exportError env = None \<and> archiveError env = None")
  case True
  let ?env' = "env\<lparr>s3UploadError := x, driveUploadError := y\<rparr>"
  obtain r s2 where U: "updateBackupStats env 0 True True s = (r, s2)"
    by (cases "updateBackupStats env 0 True True s")
  have U': "updateBackupStats ?env' 0 True True s = (r, s2)"
    using U by (simp add: updateBackupStats_upload_indep)
  have a: "db_isInitialized s" "ensureDirError ?env' = None" "exportError ?env' = None" "archiveError ?env' = None"
    using True by simp_all
  have b: "db_isInitialized s" "ensureDirError env = None" "exportError env = None" "archiveError env = None"
    using True by simp_all
  have g: "backup_record_of ?env' s = backup_record_of env s"
    by (simp add: backup_record_of_def getFileSize_def backupName_def)
  show ?thesis
    unfolding performBackup_after_upload [OF a U' refl refl] performBackup_after_upload [OF b U refl refl]
    by (cases r) (simp_all add: backup_failed_upload_indep g)
next
  case False
  then show ?thesis
    by (auto simp: performBackup_def Let_def backup_failed_upload_indep split: option.splits)
qed

lemma backup_failed_throws: "isl (fst (backup_failed env k e s))"
  by (simp add: backup_failed_def split: prod.splits sum.splits)

text \<open>
  Claim C7, as the code has it. A run of \<^verbatim>\<open>performBackup\<close> on an initialised module whose
  export and archive steps succeed uploads the archive to every configured target (client
  and bucket or folder both set): afterwards a target holds the archive exactly when it is
  configured and its own upload did not fail, whatever became of the other upload. The
  outcomes of the uploads never reach the run's result: the run throws only when the
  statistics write fails, and otherwise returns (and keeps as \<^verbatim>\<open>lastBackup\<close>) the record that
  lists every created client as \<open>configured\<close>; with any other upload errors \<open>x\<close> and \<open>y\<close> the
  run returns the same result and leaves the same statistics.
\<close>

theorem upload_failure_leaves_backup_result:
  assumes "db_isInitialized s" and "ensureDirError env = None" and "exportError env = None"
    and "archiveError env = None"
  shows "s3Objects (snd (performBackup env s)) =
           (if s3 s \<and> truthy_string (s3Bucket s) \<and> s3UploadError env = None
            then s3Objects s @ [''backups/'' @ backupName env @ ''.zip''] else s3Objects s) \<and>
         driveFiles (snd (performBackup env s)) =
           (if drive s \<and> truthy_string (driveFolderId s) \<and> driveUploadError env = None
            then driveFiles s @ [backupName env @ ''.zip''] else driveFiles s) \<and>
         (isl (fst (performBackup env s)) \<longleftrightarrow> statsWriteError env 0 \<noteq> None) \<and>
         (statsWriteError env 0 = None \<longrightarrow>
            fst (performBackup env s) =
              Inr \<lparr>b_name = backupName env, b_timestamp = be_now env, b_size = getFileSize env,
                   b_duration = be_duration env,
                   b_cloudStorage = (if s3 s then [(''s3'', ''configured'')] else []) @
                                    (if drive s then [(''googleDrive'', ''configured'')] else [])\<rparr> \<and>
            lastBackup (snd (performBackup env s)) =
              Some \<lparr>b_name = backupName env, b_timestamp = be_now env, b_size = getFileSize env,
                    b_duration = be_duration env,
                    b_cloudStorage = (if s3 s then [(''s3'', ''configured'')] else []) @
                                     (if drive s then [(''googleDrive'', ''configured'')] else [])\<rparr>) \<and>
         fst (performBackup (env\<lparr>s3UploadError := x, driveUploadError := y\<rparr>) s) = fst (performBackup env s) \<and>
         backupStats (snd (performBackup (env\<lparr>s3UploadError := x, driveUploadError := y\<rparr>) s)) =
           backupStats (snd (performBackup env s))"
proof -
  obtain r s2 where U: "updateBackupStats env 0 True True s = (r, s2)"
    by (cases "updateBackupStats env 0 True True s")
  note pb = performBackup_after_upload [OF assms U refl refl]
  have rec: "backup_record_of env s =
      \<lparr>b_name = backupName env, b_timestamp = be_now env, b_size = getFileSize env,
       b_duration = be_duration env,
       b_cloudStorage = (if s3 s then [(''s3'', ''configured'')] else []) @
                        (if drive s then [(''googleDrive'', ''configured'')] else [])\<rparr>"
    by (simp add: backup_record_of_def getCloudStorageStatus_def)
  have rk: "isl r \<longleftrightarrow> statsWriteError env 0 \<noteq> None"
    using U by (auto simp: updateBackupStats_def Let_def split: option.splits)
  have a: "s3Objects (snd (performBackup env s)) = s3Objects (snd (uploadToCloud env (backupName env) s))"
    unfolding pb by (cases r) simp_all
  have b: "driveFiles (snd (performBackup env s)) = driveFiles (snd (uploadToCloud env (backupName env) s))"
    unfolding pb by (cases r) simp_all
  have c: "isl (fst (performBackup env s)) \<longleftrightarrow> statsWriteError env 0 \<noteq> None"
  proof (cases r)
    case (Inl e)
    then show ?thesis using rk backup_failed_throws [of env 1 e s2] unfolding pb by simp
  next
    case (Inr u)
    then show ?thesis using rk unfolding pb by simp
  qed
  have d: "statsWriteError env 0 = None \<longrightarrow>
            fst (performBackup env s) = Inr (backup_record_of env s) \<and>
            lastBackup (snd (performBackup env s)) = Some (backup_record_of env s)"
  proof
    assume "statsWriteError env 0 = None"
    then obtain u where "r = Inr u" using rk by (cases r) auto
    then show "fst (performBackup env s) = Inr (backup_record_of env s) \<and>
            lastBackup (snd (performBackup env s)) = Some (backup_record_of env s)"
      unfolding pb by simp
  qed
  note i = performBackup_upload_indep [where env=env and x=x and y=y and s=s]
  from a b c d i show ?thesis
    unfolding uploadToCloud_s3Objects uploadToCloud_driveFiles rec [symmetric] by blast
qed

theorem upload_failure_leaves_backup_result_witness:
  "db_isInitialized ex_backup \<and> ensureDirError ex_backup_env_s3_refused = None \<and>
   exportError ex_backup_env_s3_refused = None \<and> archiveError ex_backup_env_s3_refused = None \<and>
   s3UploadError ex_backup_env_s3_refused = Some ''AccessDenied'' \<and>
   s3Objects (snd (performBackup ex_backup_env_s3_refused ex_backup)) = [] \<and>
   driveFiles (snd (performBackup ex_backup_env_s3_refused ex_backup)) =
     [''codedx_backup_2024-05-01_06-00-00.zip''] \<and>
   \<not> isl (fst (performBackup ex_backup_env_s3_refused ex_backup))"
proof -
  have h1: "db_isInitialized ex_backup" by (simp add: ex_backup_def)
  have h2: "ensureDirError ex_backup_env_s3_refused = None"
    by (simp add: ex_backup_env_s3_refused_def ex_backup_env_def)
  have h3: "exportError ex_backup_env_s3_refused = None"
    by (simp add: ex_backup_env_s3_refused_def ex_backup_env_def)
  have h4: "archiveError ex_backup_env_s3_refused = None"
    by (simp add: ex_backup_env_s3_refused_def ex_backup_env_def)
  have e: "s3UploadError ex_backup_env_s3_refused = Some ''AccessDenied''"
    "driveUploadError ex_backup_env_s3_refused = None"
    "statsWriteError ex_backup_env_s3_refused 0 = None"
    "backupName ex_backup_env_s3_refused = ''codedx_backup_2024-05-01_06-00-00''"
    by (simp_all add: ex_backup_env_s3_refused_def ex_backup_env_def backupName_def)
  have s: "s3Objects ex_backup = []" "driveFiles ex_backup = []" "drive ex_backup"
    "truthy_string (driveFolderId ex_backup)"
    by (simp_all add: ex_backup_def truthy_string_def)
  from upload_failure_leaves_backup_result [OF h1 h2 h3 h4, of None None]
  have "s3Objects (snd (performBackup ex_backup_env_s3_refused ex_backup)) = [] \<and>
   driveFiles (snd (performBackup ex_backup_env_s3_refused ex_backup)) =
     [''codedx_backup_2024-05-01_06-00-00.zip''] \<and>
   \<not> isl (fst (performBackup ex_backup_env_s3_refused ex_backup))"
    by (simp add: e s)
  with h1 h2 h3 h4 e(1) show ?thesis by blast
qed

text \<open>
  The claim as stated fails in its last part: the upload to S3 is refused, nothing is stored
  there, and the run returns the very record of the run whose uploads all succeeded, with
  \<open>s3\<close> listed as \<open>configured\<close>. The failure is on no field of the record.
\<close>

theorem upload_failure_not_recorded_counterexample:
  "fst (performBackup ex_backup_env_s3_refused ex_backup) =
     Inr \<lparr>b_name = ''codedx_backup_2024-05-01_06-00-00'', b_timestamp = 1714543200000,
          b_size = 300, b_duration = 1500,
          b_cloudStorage = [(''s3'', ''configured''), (''googleDrive'', ''configured'')]\<rparr> \<and>
   fst (performBackup ex_backup_env ex_backup) = fst (performBackup ex_backup_env_s3_refused ex_backup) \<and>
   s3Objects (snd (performBackup ex_backup_env_s3_refused ex_backup)) = []"
  by (simp add: performBackup_def ex_backup_env_s3_refused_def ex_backup_env_def ex_backup_def
      uploadToCloud_def uploadToS3_def uploadToGoogleDrive_def truthy_string_def
      updateBackupStats_def getFileSize_def getCloudStorageStatus_def backupName_def Let_def)

section \<open>DatabaseBackup: the statistics\<close>

lemma updateBackupStats_counts:
  "totalBackups (backupStats (snd (updateBackupStats env k p b s))) = totalBackups (backupStats s) + 1 \<and>
   successfulBackups (backupStats (snd (updateBackupStats env k p b s))) =
     successfulBackups (backupStats s) + (if b then 1 else 0) \<and>
   failedBackups (backupStats (snd (updateBackupStats env k p b s))) =
     failedBackups (backupStats s) + (if b then 0 else 1)"
  by (simp add: updateBackupStats_def Let_def split: option.splits)

lemma backup_failed_counts:
  "totalBackups (backupStats (snd (backup_failed env k e s))) = totalBackups (backupStats s) + 1 \<and>
   successfulBackups (backupStats (snd (backup_failed env k e s))) = successfulBackups (backupStats s) \<and>
   failedBackups (backupStats (snd (backup_failed env k e s))) = failedBackups (backupStats s) + 1 \<and>
   isl (fst (backup_failed env k e s))"
proof -
  obtain r s1 where U: "updateBackupStats env k False False s = (r, s1)"
    by (cases "updateBackupStats env k False False s")
  have "snd (backup_failed env k e s) = s1 \<and> isl (fst (backup_failed env k e s))"
    using U by (cases r) (simp_all add: backup_failed_def)
  then show ?thesis using updateBackupStats_counts [of env k False False s] U by simp
qed

lemma performBackup_counts:
  assumes init: "db_isInitialized s"
    and ok: "ensureDirError env = None \<and> exportError env = None \<and> archiveError env = None
             \<longrightarrow> statsWriteError env 0 = None"
  shows "totalBackups (backupStats (snd (performBackup env s))) = totalBackups (backupStats s) + 1 \<and>
         successfulBackups (backupStats (snd (performBackup env s))) =
           successfulBackups (backupStats s) + (if isl (fst (performBackup env s)) then 0 else 1) \<and>
         failedBackups (backupStats (snd (performBackup env s))) =
           failedBackups (backupStats s) + (if isl (fst (performBackup env s)) then 1 else 0)"
proof (cases "ensureDirError env = None \<and> exportError env = None \<and> archiveError env = None")
  case False
  have "\<exists>m. performBackup env s = backup_failed env 0 (ExternalError m) s"
    using init False
    by (cases "ensureDirError env"; cases "exportError env"; cases "archiveError env")
       (auto simp: performBackup_def)
  then obtain m where "performBackup env s = backup_failed env 0 (ExternalError m) s" by blast
  then show ?thesis using backup_failed_counts [of env 0 "ExternalError m" s] by simp
next
  case True
  then have w: "statsWriteError env 0 = None" using ok by simp
  obtain s2 where U: "updateBackupStats env 0 True True s = (Inr (), s2)"
    using w by (simp add: updateBackupStats_def Let_def)
  have "performBackup env s =
      (Inr (backup_record_of env s),
       s2\<lparr>s3Objects := s3Objects (snd (uploadToCloud env (backupName env) s)),
          driveFiles := driveFiles (snd (uploadToCloud env (backupName env) s)),
          lastBackup := Some (backup_record_of env s)\<rparr>)"
    using performBackup_after_upload [OF init _ _ _ U refl refl] True by simp
  then show ?thesis using updateBackupStats_counts [of env 0 True True s] U by simp
qed

text \<open>
  Every call of \<^verbatim>\<open>updateBackupStats\<close> adds one to \<^verbatim>\<open>totalBackups\<close> and one to exactly one of
  \<^verbatim>\<open>successfulBackups\<close> and \<^verbatim>\<open>failedBackups\<close>, so a tally that adds up still does afterwards.
  A run of \<^verbatim>\<open>performBackup\<close> on an initialised module counts once (one more backup in total:
  a successful one when the run returns, a failed one when it throws) in every case but one:
  the statistics write of a run whose steps all succeeded fails.
\<close>

lemma backup_stats_tally:
  assumes "stats_consistent (backupStats s)"
  shows "stats_consistent (backupStats (snd (updateBackupStats env k p b s))) \<and>
         totalBackups (backupStats (snd (updateBackupStats env k p b s))) = totalBackups (backupStats s) + 1 \<and>
         successfulBackups (backupStats (snd (updateBackupStats env k p b s))) =
           successfulBackups (backupStats s) + (if b then 1 else 0) \<and>
         failedBackups (backupStats (snd (updateBackupStats env k p b s))) =
           failedBackups (backupStats s) + (if b then 0 else 1) \<and>
         (db_isInitialized s \<and>
          (ensureDirError env = None \<and> exportError env = None \<and> archiveError env = None
             \<longrightarrow> statsWriteError env 0 = None) \<longrightarrow>
            stats_consistent (backupStats (snd (performBackup env s))) \<and>
            totalBackups (backupStats (snd (performBackup env s))) = totalBackups (backupStats s) + 1 \<and>
            successfulBackups (backupStats (snd (performBackup env s))) =
              successfulBackups (backupStats s) + (if isl (fst (performBackup env s)) then 0 else 1) \<and>
            failedBackups (backupStats (snd (performBackup env s))) =
              failedBackups (backupStats s) + (if isl (fst (performBackup env s)) then 1 else 0))"
proof -
  note u = updateBackupStats_counts [of env k p b s]
  have a: "stats_consistent (backupStats (snd (updateBackupStats env k p b s)))"
    using assms u by (simp add: stats_consistent_def)
  have b: "db_isInitialized s \<and>
          (ensureDirError env = None \<and> exportError env = None \<and> archiveError env = None
             \<longrightarrow> statsWriteError env 0 = None) \<longrightarrow>
            stats_consistent (backupStats (snd (performBackup env s))) \<and>
            totalBackups (backupStats (snd (performBackup env s))) = totalBackups (backupStats s) + 1 \<and>
            successfulBackups (backupStats (snd (performBackup env s))) =
              successfulBackups (backupStats s) + (if isl (fst (performBackup env s)) then 0 else 1) \<and>
            failedBackups (backupStats (snd (performBackup env s))) =
              failedBackups (backupStats s) + (if isl (fst (performBackup env s)) then 1 else 0)"
  proof
    assume h: "db_isInitialized s \<and>
          (ensureDirError env = None \<and> exportError env = None \<and> archiveError env = None
             \<longrightarrow> statsWriteError env 0 = None)"
    note c = performBackup_counts [of s env]
    from h c have c': "totalBackups (backupStats (snd (performBackup env s))) = totalBackups (backupStats s) + 1 \<and>
         successfulBackups (backupStats (snd (performBackup env s))) =
           successfulBackups (backupStats s) + (if isl (fst (performBackup env s)) then 0 else 1) \<and>
         failedBackups (backupStats (snd (performBackup env s))) =
           failedBackups (backupStats s) + (if isl (fst (performBackup env s)) then 1 else 0)"
      by blast
    then have "stats_consistent (backupStats (snd (performBackup env s)))"
      using assms by (simp add: stats_consistent_def)
    with c' show "stats_consistent (backupStats (snd (performBackup env s))) \<and>
            totalBackups (backupStats (snd (performBackup env s))) = totalBackups (backupStats s) + 1 \<and>
            successfulBackups (backupStats (snd (performBackup env s))) =
              successfulBackups (backupStats s) + (if isl (fst (performBackup env s)) then 0 else 1) \<and>
            failedBackups (backupStats (snd (performBackup env s))) =
              failedBackups (backupStats s) + (if isl (fst (performBackup env s)) then 1 else 0)"
      by blast
  qed
  from a u b show ?thesis by blast
qed

lemma backup_stats_tally_example:
  "stats_consistent (backupStats ex_backup) \<and> db_isInitialized ex_backup \<and>
   statsWriteError ex_backup_env 0 = None \<and>
   totalBackups (backupStats (snd (performBackup ex_backup_env ex_backup))) = 5 \<and>
   stats_consistent (backupStats (snd (performBackup ex_backup_env ex_backup)))"
proof -
  have h1: "stats_consistent (backupStats ex_backup)"
    by (simp add: stats_consistent_def ex_backup_def)
  have h2: "db_isInitialized ex_backup" by (simp add: ex_backup_def)
  have h3: "statsWriteError ex_backup_env 0 = None" by (simp add: ex_backup_env_def)
  from backup_stats_tally [OF h1, of ex_backup_env 0 True True] h2 h3
  have "stats_consistent (backupStats (snd (performBackup ex_backup_env ex_backup))) \<and>
        totalBackups (backupStats (snd (performBackup ex_backup_env ex_backup))) =
          totalBackups (backupStats ex_backup) + 1"
    by blast
  with h1 h2 h3 show ?thesis by (simp add: ex_backup_def)
qed

text \<open>
  A run on a module that is not initialised throws at the guard of line 72, before the
  \<^verbatim>\<open>try\<close>, without touching the statistics.
\<close>

lemma performBackup_uninitialized_not_counted:
  "fst (performBackup ex_backup_env ex_backup_uninitialized) = Inl (NotInitialized ''DatabaseBackup'') \<and>
   backupStats (snd (performBackup ex_backup_env ex_backup_uninitialized)) =
     \<lparr>totalBackups = 4, successfulBackups = 3, failedBackups = 1, totalSize = 900\<rparr>"
  by (simp add: performBackup_def ex_backup_uninitialized_def ex_backup_def)

text \<open>
  Claim C10 fails in the remaining case. The module is initialised, every step of the run
  succeeds, and the write of \<^verbatim>\<open>backup-stats.json\<close> throws (line 279). The call
  \<^verbatim>\<open>updateBackupStats(archivePath, duration, true)\<close> of line 101 stands inside the \<^verbatim>\<open>try\<close>
  and has already counted a successful backup when it throws; the \<^verbatim>\<open>catch\<close> block (line 116)
  calls \<^verbatim>\<open>updateBackupStats(null, duration, false)\<close> and counts a failed one on top. One run,
  two calls: two more backups in total, one more successful and one more failed.
\<close>

theorem performBackup_stats_write_failure_counted_twice:
  "db_isInitialized ex_backup \<and>
   backupStats ex_backup =
     \<lparr>totalBackups = 4, successfulBackups = 3, failedBackups = 1, totalSize = 900\<rparr> \<and>
   statsWriteError ex_backup_env_stats_write_fails 0 = Some ''ENOSPC'' \<and>
   statsWriteError ex_backup_env_stats_write_fails 1 = None \<and>
   fst (performBackup ex_backup_env_stats_write_fails ex_backup) = Inl (ExternalError ''ENOSPC'') \<and>
   backupStats (snd (performBackup ex_backup_env_stats_write_fails ex_backup)) =
     \<lparr>totalBackups = 6, successfulBackups = 4, failedBackups = 2, totalSize = 1200\<rparr> \<and>
   statsFile (snd (performBackup ex_backup_env_stats_write_fails ex_backup)) =
     Some \<lparr>totalBackups = 6, successfulBackups = 4, failedBackups = 2, totalSize = 1200\<rparr>"
  by (simp add: performBackup_def ex_backup_env_stats_write_fails_def ex_backup_env_def ex_backup_def
      uploadToCloud_def uploadToS3_def uploadToGoogleDrive_def truthy_string_def backup_failed_def
      updateBackupStats_def getFileSize_def Let_def)

section \<open>DeploymentAutomation: the branch check\<close>

lemma new_deployment_ignores_force:
  "new_deployment env (opts\<lparr>dep_force := f\<rparr>) s = new_deployment env opts s"
  by (simp add: new_deployment_def)

lemma deploy_stages_ignores_force:
  "deploy_stages env (opts\<lparr>dep_force := f\<rparr>) s d = deploy_stages env opts s d"
  by (simp add: deploy_stages_def Let_def split: prod.splits option.splits)

lemma deploy_ignores_force: "deploy env (opts\<lparr>dep_force := f\<rparr>) s = deploy env opts s"
  by (simp add: deploy_def new_deployment_ignores_force deploy_stages_ignores_force)

text \<open>
  Claim C2, as the code has it. On an initialised module, for an environment with a configured
  required branch, \<^verbatim>\<open>deploy\<close> on another branch fails with the branch-mismatch error, with
  \<^verbatim>\<open>force\<close> set or not: the check does not consult it. The stored deployment is marked
  failed, carries the error, and its build log holds the single line pushed before the check,
  so no warning is recorded. \<^verbatim>\<open>deploy\<close> as a whole does the same with \<^verbatim>\<open>force\<close> as without.
\<close>

theorem deploy_branch_mismatch_fails_even_forced:
  assumes "da_isInitialized s"
    and "environments s (dep_environment opts) = Some ec"
    and "ec_branch ec = Some b" and "b \<noteq> []"
    and "currentBranch s \<noteq> b"
  shows "fst (deploy env opts s) = Inl (BranchMismatch (dep_environment opts) b (currentBranch s)) \<and>
         deploymentHistory (snd (deploy env opts s)) =
           push_capped 100 (deploymentHistory s)
             ((new_deployment env opts s)
                \<lparr>d_buildLog := [''Running pre-deployment checks...''],
                 d_status := DeployFailed,
                 d_error := Some (BranchMismatch (dep_environment opts) b (currentBranch s)),
                 d_duration := de_duration env\<rparr>) \<and>
         deploy env (opts\<lparr>dep_force := True\<rparr>) s = deploy env (opts\<lparr>dep_force := False\<rparr>) s"
proof -
  have bm: "branch_mismatch s (dep_environment opts) = Some b"
    using assms by (simp add: branch_mismatch_def)
  have pre: "preDeploymentChecks env False s (new_deployment env opts s) =
          (Some (BranchMismatch (dep_environment opts) b (currentBranch s)),
           (new_deployment env opts s)\<lparr>d_buildLog := [''Running pre-deployment checks...'']\<rparr>)"
    using bm by (simp add: preDeploymentChecks_def new_deployment_def Let_def)
  have st: "deploy_stages env opts s (new_deployment env opts s) =
          (Some (BranchMismatch (dep_environment opts) b (currentBranch s)),
           (new_deployment env opts s)\<lparr>d_buildLog := [''Running pre-deployment checks...'']\<rparr>)"
    using pre by (simp add: deploy_stages_def)
  have a: "fst (deploy env opts s) = Inl (BranchMismatch (dep_environment opts) b (currentBranch s))"
    using assms(1) st by (simp add: deploy_def Let_def)
  have h: "deploymentHistory (snd (deploy env opts s)) =
           push_capped 100 (deploymentHistory s)
             ((new_deployment env opts s)
                \<lparr>d_buildLog := [''Running pre-deployment checks...''],
                 d_status := DeployFailed,
                 d_error := Some (BranchMismatch (dep_environment opts) b (currentBranch s)),
                 d_duration := de_duration env\<rparr>)"
    using assms(1) st by (simp add: deploy_def Let_def storeDeployment_def)
  have f: "deploy env (opts\<lparr>dep_force := True\<rparr>) s = deploy env (opts\<lparr>dep_force := False\<rparr>) s"
    by (simp add: deploy_ignores_force)
  from a h f show ?thesis by blast
qed

theorem deploy_branch_mismatch_fails_even_forced_witness:
  "da_isInitialized ex_deployer \<and> currentBranch ex_deployer \<noteq> ''main'' \<and>
   fst (deploy ex_deploy_env ex_forced_production ex_deployer) =
     Inl (BranchMismatch ''production'' ''main'' ''develop'')"
proof -
  let ?ec = "\<lparr>ec_branch = Some ''main'', ec_autoDeploy = False,
              ec_platform = ''vercel'', ec_domain = Some ''codedx.example''\<rparr>"
  have h1: "da_isInitialized ex_deployer" by (simp add: ex_deployer_def)
  have h2: "environments ex_deployer (dep_environment ex_forced_production) = Some ?ec"
    by (simp add: ex_deployer_def ex_forced_production_def default_environments_def)
  have h3: "ec_branch ?ec = Some ''main''" by simp
  have h4: "''main'' \<noteq> []" by simp
  have h5: "currentBranch ex_deployer \<noteq> ''main''" by (simp add: ex_deployer_def)
  have e1: "dep_environment ex_forced_production = ''production''"
    by (simp add: ex_forced_production_def)
  have e2: "currentBranch ex_deployer = ''develop''" by (simp add: ex_deployer_def)
  from deploy_branch_mismatch_fails_even_forced [OF h1 h2 h3 h4 h5, of ex_deploy_env]
  have "fst (deploy ex_deploy_env ex_forced_production ex_deployer) =
     Inl (BranchMismatch (dep_environment ex_forced_production) ''main'' (currentBranch ex_deployer))"
    by blast
  then have "fst (deploy ex_deploy_env ex_forced_production ex_deployer) =
     Inl (BranchMismatch ''production'' ''main'' ''develop'')"
    by (simp only: e1 e2)
  with h1 h5 show ?thesis by blast
qed

text \<open>
  The claim as stated fails in its second part: a forced deployment to production from branch
  \<open>develop\<close>, with a clean working tree and every later stage ready to succeed, still fails
  with the branch mismatch; the log has the one line of the check and no warning.
\<close>

theorem deploy_forced_branch_mismatch_counterexample:
  "dep_force ex_forced_production \<and>
   fst (deploy ex_deploy_env ex_forced_production ex_deployer) =
     Inl (BranchMismatch ''production'' ''main'' ''develop'') \<and>
   map d_status (deploymentHistory (snd (deploy ex_deploy_env ex_forced_production ex_deployer))) =
     [DeployFailed] \<and>
   map d_buildLog (deploymentHistory (snd (deploy ex_deploy_env ex_forced_production ex_deployer))) =
     [[''Running pre-deployment checks...'']] \<and>
   map d_deployLog (deploymentHistory (snd (deploy ex_deploy_env ex_forced_production ex_deployer))) =
     [[]]"
  by (simp add: deploy_def deploy_stages_def preDeploymentChecks_def branch_mismatch_def
      new_deployment_def storeDeployment_def push_capped_def Let_def
      ex_deployer_def ex_deploy_env_def ex_forced_production_def default_environments_def)

section \<open>ReportGenerator: a failing section\<close>

lemma map_of_set_prop: "map_of (set_prop kvs k v) = (map_of kvs)(k \<mapsto> v)"
  by (induction kvs) (auto simp: fun_eq_iff)

lemma data_prop_generateSections:
  "data_prop (generateSections env secs data) k =
     (if k \<in> set secs
      then (case generateSection env k of Inl e \<Rightarrow> placeholder e | Inr v \<Rightarrow> v)
      else data_prop data k)"
proof (induction secs arbitrary: data)
  case Nil
  then show ?case by simp
next
  case (Cons a secs)
  show ?case
    by (simp add: Cons.IH) (simp add: data_prop_def map_of_set_prop)
qed

text \<open>
  The loop itself does what the claim says: a section whose generator throws gets the
  placeholder as its data, and every requested section gets an entry, so the loop goes on
  after a failure.
\<close>

lemma failed_section_gets_placeholder:
  assumes "section \<in> set secs" and "generateSection env section = Inl e"
  shows "data_prop (generateSections env secs data) section = placeholder e"
  using assms by (simp add: data_prop_generateSections)

lemma generateSections_covers:
  "dom (map_of (generateSections env secs data)) = dom (map_of data) \<union> set secs"
  by (induction secs arbitrary: data) (auto simp: map_of_set_prop)

text \<open>
  What follows the loop does not: \<^verbatim>\<open>generateSummary\<close> reads
  \<^verbatim>\<open>data.performance.responseTimes.average\<close> whenever \<^verbatim>\<open>data.performance\<close> is truthy, and the
  placeholder is.
\<close>

lemma summary_aborts_on_performance_placeholder:
  assumes "data_prop data ''performance'' = placeholder e"
  shows "generateSummary data = Inl (TypeError ''average'')"
proof -
  have u: "\<exists>h. highlight_block data ''users''
             (''Total users: '', [''totalUsers''])
             (''New users this period: '', [''newUsers'']) [] = Inr h"
    by (cases "data_prop data ''users''")
       (simp_all add: highlight_block_def truthy_def get_prop_def)
  then obtain h where h: "highlight_block data ''users''
             (''Total users: '', [''totalUsers''])
             (''New users this period: '', [''newUsers'']) [] = Inr h" by blast
  have p: "highlight_block data ''performance''
                  (''Average response time: '', [''responseTimes'', ''average''])
                  (''Error rate: '', [''errorRates'', ''rate'']) h = Inl (TypeError ''average'')"
    using assms by (simp add: highlight_block_def truthy_def get_prop_def placeholder_def)
  show ?thesis using h p by (simp add: generateSummary_def)
qed

lemma report_with_performance_aborts:
  assumes "rg_isInitialized s" and "''performance'' \<in> set (r_sections (new_report env opts))"
  shows "fst (generateReport env opts s) = Inl (TypeError ''average'') \<and>
         savedReports (snd (generateReport env opts s)) = savedReports s"
proof -
  let ?data = "generateSections env (r_sections (new_report env opts)) (r_data (new_report env opts))"
  have "data_prop ?data ''performance'' = placeholder (TypeError ''getThroughput'')"
    using assms(2) by (simp add: data_prop_generateSections generateSection_def)
  then have "generateSummary ?data = Inl (TypeError ''average'')"
    by (rule summary_aborts_on_performance_placeholder)
  then show ?thesis using assms(1)
    by (simp add: generateReport_def Let_def report_failed_def storeReportRecord_def)
qed

text \<open>
  Claim C8 at the weekly report that the scheduler generates. The generator of the
  \<open>performance\<close> section throws; the placeholder is stored and the \<open>errors\<close> section is
  still generated (it fails too and gets its own placeholder). Then the summary throws on the
  \<open>performance\<close> placeholder: the report is recorded as failed, no report file is written
  and the call throws.
\<close>

theorem weekly_report_aborted_by_failed_section:
  "fst (generateWeeklyReport ex_report_env ex_generator) = Inl (TypeError ''average'') \<and>
   map r_status (reportHistory (snd (generateWeeklyReport ex_report_env ex_generator))) = [ReportFailed] \<and>
   map r_data (reportHistory (snd (generateWeeklyReport ex_report_env ex_generator))) =
     [[(''system'', systemSection ex_report_env), (''users'', usersSection ex_report_env),
       (''performance'', placeholder (TypeError ''getThroughput'')),
       (''errors'', placeholder (TypeError ''getErrorTrends''))]] \<and>
   savedReports (snd (generateWeeklyReport ex_report_env ex_generator)) = []"
  by (simp add: generateWeeklyReport_def weekly_options_def generateReport_def new_report_def
      template_sections_def generateSection_def generateSummary_def highlight_block_def
      data_prop_def truthy_def get_prop_def placeholder_def error_text_def report_failed_def
      storeReportRecord_def push_capped_def ex_generator_def ex_report_env_def Let_def)

section \<open>HealthMonitor: overall status and alert cooldown\<close>

lemma worst_upper:
  "x \<in> S \<Longrightarrow>
     severity x \<le> severity (if StatusError \<in> S then StatusError
                            else if Unhealthy \<in> S then Unhealthy
                            else if Warning \<in> S then Warning else Healthy)"
  by (cases x) auto

lemma worst_attained:
  assumes "x \<in> S"
  shows "(if StatusError \<in> S then StatusError
          else if Unhealthy \<in> S then Unhealthy
          else if Warning \<in> S then Warning else Healthy) \<in> S"
  using assms by (cases x) auto

lemma determineOverallHealth_upper:
  assumes "c \<in> set checks"
  shows "severity (hc_status (snd c)) \<le> severity (determineOverallHealth checks)"
proof -
  have "hc_status (snd c) \<in> set (map (\<lambda>c. hc_status (snd c)) checks)" using assms by auto
  then show ?thesis
    unfolding determineOverallHealth_def Let_def by (rule worst_upper)
qed

lemma determineOverallHealth_attained:
  assumes "checks \<noteq> []"
  shows "\<exists>c\<in>set checks. hc_status (snd c) = determineOverallHealth checks"
proof -
  obtain c where "c \<in> set checks" using assms by (cases checks) auto
  then have "hc_status (snd c) \<in> set (map (\<lambda>c. hc_status (snd c)) checks)" by auto
  then have "determineOverallHealth checks \<in> set (map (\<lambda>c. hc_status (snd c)) checks)"
    unfolding determineOverallHealth_def Let_def by (rule worst_attained)
  then show ?thesis by force
qed

lemma checkForAlerts_cooldown:
  assumes "lastAlert s = Some t" and "t \<noteq> 0" and "now - t < alertCooldown s"
  shows "checkForAlerts now checks s = ([], s)"
  using assms by (simp add: checkForAlerts_def in_cooldown_def)

lemma checkForAlerts_sets_lastAlert:
  assumes "checkForAlerts t0 checks s = (alerts, s1)" and "alerts \<noteq> []"
  shows "lastAlert s1 = Some t0 \<and> alertCooldown s1 = alertCooldown s"
  using assms by (auto simp: checkForAlerts_def Let_def split: if_splits)

lemma checkHealth_report:
  assumes "fst (checkHealth env s) = Inr r"
  shows "h_checks r = run_checks env (alertThresholds s) \<and> h_overall r = determineOverallHealth (h_checks r) \<and>
         h_alerts r = fst (checkForAlerts (he_now env) (h_checks r) s)"
  using assms
  by (auto simp: checkHealth_def Let_def case_prod_beta split: if_splits option.splits)

text \<open>
  Claim C5. In every report that \<^verbatim>\<open>checkHealth\<close> returns, the overall status is the worst of
  the statuses of its checks under the order healthy, warning, unhealthy, error: no check is
  worse, and some check has exactly that status. And \<^verbatim>\<open>checkForAlerts\<close> returns no alert,
  and changes nothing, whenever the last alert was raised (at a time \<open>t\<close> of the clock other
  than 0) less than the cooldown before \<open>now\<close>, whatever the checks show; in particular a
  call that raised alerts at \<open>t0\<close> silences every call made less than the cooldown after it.
\<close>

theorem overall_is_worst_and_cooldown_silences:
  "(fst (checkHealth env s) = Inr r \<longrightarrow>
      h_overall r = determineOverallHealth (h_checks r) \<and>
      (\<forall>c\<in>set (h_checks r). severity (hc_status (snd c)) \<le> severity (h_overall r)) \<and>
      (\<exists>c\<in>set (h_checks r). hc_status (snd c) = h_overall r)) \<and>
   (lastAlert s = Some t \<and> t \<noteq> 0 \<and> now - t < alertCooldown s \<longrightarrow>
      checkForAlerts now checks s = ([], s)) \<and>
   (checkForAlerts t0 checks0 s = (alerts, s1) \<and> alerts \<noteq> [] \<and> t0 \<noteq> 0 \<and>
    now - t0 < alertCooldown s \<longrightarrow>
      checkForAlerts now checks s1 = ([], s1))"
proof -
  have a: "fst (checkHealth env s) = Inr r \<longrightarrow>
      h_overall r = determineOverallHealth (h_checks r) \<and>
      (\<forall>c\<in>set (h_checks r). severity (hc_status (snd c)) \<le> severity (h_overall r)) \<and>
      (\<exists>c\<in>set (h_checks r). hc_status (snd c) = h_overall r)"
  proof
    assume h: "fst (checkHealth env s) = Inr r"
    note rep = checkHealth_report [OF h]
    have ne: "h_checks r \<noteq> []" using rep by (simp add: run_checks_def)
    have o: "h_overall r = determineOverallHealth (h_checks r)" using rep by simp
    show "h_overall r = determineOverallHealth (h_checks r) \<and>
      (\<forall>c\<in>set (h_checks r). severity (hc_status (snd c)) \<le> severity (h_overall r)) \<and>
      (\<exists>c\<in>set (h_checks r). hc_status (snd c) = h_overall r)"
      unfolding o using determineOverallHealth_upper [of _ "h_checks r"]
        determineOverallHealth_attained [OF ne] by blast
  qed
  have b: "lastAlert s = Some t \<and> t \<noteq> 0 \<and> now - t < alertCooldown s \<longrightarrow>
      checkForAlerts now checks s = ([], s)"
    using checkForAlerts_cooldown [of s t now checks] by blast
  have c: "checkForAlerts t0 checks0 s = (alerts, s1) \<and> alerts \<noteq> [] \<and> t0 \<noteq> 0 \<and>
    now - t0 < alertCooldown s \<longrightarrow> checkForAlerts now checks s1 = ([], s1)"
  proof
    assume h: "checkForAlerts t0 checks0 s = (alerts, s1) \<and> alerts \<noteq> [] \<and> t0 \<noteq> 0 \<and>
      now - t0 < alertCooldown s"
    then have "lastAlert s1 = Some t0 \<and> alertCooldown s1 = alertCooldown s"
      using checkForAlerts_sets_lastAlert [of t0 checks0 s alerts s1] by blast
    then show "checkForAlerts now checks s1 = ([], s1)"
      using checkForAlerts_cooldown [of s1 t0 now checks] h by simp
  qed
  from a b c show ?thesis by blast
qed

lemma ex_check_lastAlert:
  "lastAlert (snd (checkHealth ex_health_env ex_monitor)) = Some 1000000 \<and>
   alertCooldown (snd (checkHealth ex_health_env ex_monitor)) = 300000 \<and>
   (\<exists>r. fst (checkHealth ex_health_env ex_monitor) = Inr r \<and> h_overall r = StatusError)"
  by (simp add: checkHealth_def ex_health_env_def ex_monitor_def run_checks_def
      checkSystemHealth_def checkDatabaseHealth_def checkApplicationHealth_def
      checkNetworkHealth_def checkDiskHealth_def checkMemoryHealth_def errorResult_def
      determineOverallHealth_def checkForAlerts_def in_cooldown_def system_alerts_def
      database_alerts_def application_alerts_def Let_def)

theorem overall_is_worst_and_cooldown_silences_witness:
  "(\<exists>r. fst (checkHealth ex_health_env ex_monitor) = Inr r \<and> h_overall r = StatusError \<and>
        (\<forall>c\<in>set (h_checks r). severity (hc_status (snd c)) \<le> severity (h_overall r))) \<and>
   lastAlert (snd (checkHealth ex_health_env ex_monitor)) = Some 1000000 \<and>
   checkForAlerts 1200000 (run_checks ex_health_env (alertThresholds ex_monitor))
       (snd (checkHealth ex_health_env ex_monitor)) =
     ([], snd (checkHealth ex_health_env ex_monitor))"
proof -
  let ?s1 = "snd (checkHealth ex_health_env ex_monitor)"
  obtain r where r: "fst (checkHealth ex_health_env ex_monitor) = Inr r" "h_overall r = StatusError"
    using ex_check_lastAlert by blast
  have la: "lastAlert ?s1 = Some 1000000" "alertCooldown ?s1 = 300000"
    using ex_check_lastAlert by simp_all
  have cd: "lastAlert ?s1 = Some 1000000 \<and> (1000000::int) \<noteq> 0 \<and> 1200000 - 1000000 < alertCooldown ?s1"
    using la by simp
  from overall_is_worst_and_cooldown_silences [where env=ex_health_env and s=ex_monitor and r=r] r(1)
  have w: "\<forall>c\<in>set (h_checks r). severity (hc_status (snd c)) \<le> severity (h_overall r)"
    by blast
  from overall_is_worst_and_cooldown_silences [where s="?s1" and t=1000000 and now=1200000
      and checks="run_checks ex_health_env (alertThresholds ex_monitor)"] cd
  have q: "checkForAlerts 1200000 (run_checks ex_health_env (alertThresholds ex_monitor)) ?s1 = ([], ?s1)"
    by blast
  from r w la(1) q show ?thesis by blast
qed

section \<open>CleanupService: the dry run\<close>

subsection \<open>Paths in a directory tree\<close>

text \<open>
  Removing a file leaves every entry alone that is neither above nor below it; two listed
  files are never one above the other.
\<close>

lemma lookup_append:
  "lookup t (p @ q) = (case lookup t p of None \<Rightarrow> None | Some n \<Rightarrow> lookup n q)"
proof (induction t p rule: lookup.induct)
  case (1 n)
  then show ?case by simp
next
  case (2 r es k ks)
  then show ?case by (simp split: option.splits)
qed simp_all

lemma lookup_file_extend:
  assumes "lookup t p = Some (File mt sz rm)" and "q \<noteq> []"
  shows "lookup t (p @ q) = None"
  using assms by (cases q) (simp_all add: lookup_append)

lemma file_paths_prefix_free:
  assumes "lookup t p = Some (File mt sz rm)" and "lookup t q = Some (File mt' sz' rm')"
    and "prefix p q"
  shows "p = q"
proof -
  obtain r where q: "q = p @ r" using assms(3) by (auto simp: prefix_def)
  show ?thesis
  proof (cases "r = []")
    case True
    then show ?thesis using q by simp
  next
    case False
    then have "lookup t q = None" using lookup_file_extend [OF assms(1)] q by simp
    then show ?thesis using assms(2) by simp
  qed
qed

lemma map_of_filter_fst:
  "map_of (filter (\<lambda>e. fst e \<noteq> k) es) k' = (if k' = k then None else map_of es k')"
  by (induction es) auto

lemma map_of_map_at:
  "map_of (map (\<lambda>e. if fst e = k then (fst e, f (snd e)) else e) es) k' =
     (if k' = k then map_option f (map_of es k) else map_of es k')"
  by (induction es) auto

lemma lookup_remove_other:
  "\<not> prefix p q \<Longrightarrow> \<not> prefix q p \<Longrightarrow> lookup (remove p t) q = lookup t q"
proof (induction p t arbitrary: q rule: remove.induct)
  case (1 n)
  then show ?case by simp
next
  case (2 k r es)
  then obtain k' ks where q: "q = k' # ks" "k' \<noteq> k"
    by (cases q) (auto simp: prefix_def)
  then show ?case by (simp add: map_of_filter_fst)
next
  case (3 k k' ks r es)
  show ?case
  proof (cases q)
    case Nil
    then show ?thesis using "3.prems" by simp
  next
    case (Cons a as)
    show ?thesis
    proof (cases "a = k")
      case False
      then show ?thesis using Cons by (simp add: map_of_map_at)
    next
      case True
      then have np: "\<not> prefix (k' # ks) as" "\<not> prefix as (k' # ks)"
        using "3.prems" Cons by simp_all
      show ?thesis
      proof (cases "map_of es k")
        case None
        then show ?thesis using Cons True by (simp add: map_of_map_at)
      next
        case (Some c)
        then have "(k, c) \<in> set es" by (rule map_of_SomeD)
        then have "lookup (remove (k' # ks) c) as = lookup c as"
          using "3.IH" [of "(k, c)" as] np by simp
        then show ?thesis using Cons True Some by (simp add: map_of_map_at)
      qed
    qed
  qed
qed simp_all

subsection \<open>The listing\<close>

text \<open>
  Every path that \<^verbatim>\<open>getFilesInDirectory\<close> returns is a file of the tree, and in a tree
  without repeated names no path is returned twice.
\<close>

lemma listed_are_files:
  shows "wf_node t \<Longrightarrow> no_links t \<Longrightarrow> p \<in> set (getFilesInDirectory m ps base pre t) \<Longrightarrow>
           \<exists>rel mt sz rm. p = pre @ rel \<and> lookup t rel = Some (File mt sz rm)"
    and "distinct (map fst es) \<Longrightarrow> (\<forall>e\<in>set es. wf_node (snd e) \<and> no_links (snd e)) \<Longrightarrow>
           p \<in> set (getFilesOfItems m ps base pre es) \<Longrightarrow>
           \<exists>k c rel mt sz rm. p = pre @ k # rel \<and> map_of es k = Some c \<and>
              lookup c rel = Some (File mt sz rm)"
proof (induction m ps base pre t and m ps base pre es arbitrary: p and p
    rule: getFilesInDirectory_getFilesOfItems.induct)
  case (1 matches patterns base dirPath r es)
  then have r: "r" and mem: "p \<in> set (getFilesOfItems matches patterns base dirPath es)"
    by (auto split: if_splits)
  have "distinct (map fst es)" and "\<forall>e\<in>set es. wf_node (snd e) \<and> no_links (snd e)"
    using "1.prems"(1,2) by simp_all
  from "1.IH" [OF r this mem]
  obtain k c rel mt sz rm where "p = dirPath @ k # rel" "map_of es k = Some c"
    "lookup c rel = Some (File mt sz rm)" by auto
  then have "p = dirPath @ (k # rel) \<and> lookup (Dir r es) (k # rel) = Some (File mt sz rm)"
    by simp
  then show ?case by blast
next
  case (7 matches patterns base dirPath e es)
  have d: "distinct (map fst es)" and w: "\<forall>e\<in>set es. wf_node (snd e) \<and> no_links (snd e)"
    and we: "wf_node (snd e)" and le: "no_links (snd e)" and fresh: "fst e \<notin> fst ` set es"
    using "7.prems" by auto
  have ih_rest: "\<exists>k c rel mt sz rm. p = dirPath @ k # rel \<and> map_of es k = Some c \<and>
              lookup c rel = Some (File mt sz rm)"
    if "snd e \<noteq> Broken" and "p \<in> set (getFilesOfItems matches patterns base dirPath es)"
  proof (cases "snd e")
    case (File mt sz rm)
    from "7.IH"(1) [OF File d w that(2)] show ?thesis .
  next
    case (Dir r cs)
    from "7.IH"(3) [OF Dir d w that(2)] show ?thesis .
  next
    case Broken
    then show ?thesis using that(1) by simp
  next
    case Other
    from "7.IH"(4) [OF Other d w that(2)] show ?thesis .
  next
    case (Link q rm)
    then show ?thesis using le by simp
  qed
  have rest: "\<exists>k c rel mt sz rm. p = dirPath @ k # rel \<and> map_of (e # es) k = Some c \<and>
              lookup c rel = Some (File mt sz rm)"
    if "snd e \<noteq> Broken" and "p \<in> set (getFilesOfItems matches patterns base dirPath es)"
  proof -
    from ih_rest [OF that] obtain k c rel mt sz rm where
      x: "p = dirPath @ k # rel" "map_of es k = Some c" "lookup c rel = Some (File mt sz rm)"
      by blast
    then have "k \<in> fst ` set es" by (metis map_of_SomeD fst_conv image_eqI)
    then have "k \<noteq> fst e" using fresh by blast
    then have "map_of (e # es) k = Some c" using x(2) by (cases e) simp
    with x show ?thesis by blast
  qed
  show ?case
  proof (cases "snd e")
    case (File mt sz rm)
    show ?thesis
    proof (cases "p \<in> set (getFilesOfItems matches patterns base dirPath es)")
      case True
      then show ?thesis using rest File by simp
    next
      case False
      then have "p = dirPath @ [fst e]" using "7.prems"(3) File by (auto split: if_splits)
      moreover have "map_of (e # es) (fst e) = Some (snd e)" by (cases e) simp
      moreover have "lookup (snd e) [] = Some (File mt sz rm)" using File by simp
      ultimately show ?thesis by blast
    qed
  next
    case (Dir r cs)
    show ?thesis
    proof (cases "p \<in> set (getFilesOfItems matches patterns base dirPath es)")
      case True
      then show ?thesis using rest Dir by simp
    next
      case False
      then have "p \<in> set (getFilesInDirectory matches patterns base (dirPath @ [fst e]) (snd e))"
        using "7.prems"(3) Dir by auto
      from "7.IH"(2) [OF Dir we le this]
      obtain rel mt sz rm where "p = (dirPath @ [fst e]) @ rel" "lookup (snd e) rel = Some (File mt sz rm)"
        by blast
      moreover have "map_of (e # es) (fst e) = Some (snd e)" by (cases e) simp
      ultimately show ?thesis by auto
    qed
  next
    case Broken
    then show ?thesis using "7.prems"(3) by simp
  next
    case Other
    then have "p \<in> set (getFilesOfItems matches patterns base dirPath es)" using "7.prems"(3) by simp
    then show ?thesis using rest Other by simp
  next
    case (Link q rm)
    then show ?thesis using le by simp
  qed
qed simp_all

lemma items_head_name:
  assumes "distinct (map fst es)" and "\<forall>e\<in>set es. wf_node (snd e) \<and> no_links (snd e)"
    and "p \<in> set (getFilesOfItems m ps base pre es)"
  shows "\<exists>k rel. p = pre @ k # rel \<and> k \<in> fst ` set es"
proof -
  from listed_are_files(2) [OF assms] obtain k c rel where
    "p = pre @ k # rel" "map_of es k = Some c" by blast
  moreover then have "k \<in> fst ` set es" by (metis map_of_SomeD fst_conv image_eqI)
  ultimately show ?thesis by blast
qed

lemma listing_distinct:
  shows "wf_node t \<Longrightarrow> no_links t \<Longrightarrow> distinct (getFilesInDirectory m ps base pre t)"
    and "distinct (map fst es) \<Longrightarrow> (\<forall>e\<in>set es. wf_node (snd e) \<and> no_links (snd e)) \<Longrightarrow>
           distinct (getFilesOfItems m ps base pre es)"
proof (induction m ps base pre t and m ps base pre es
    rule: getFilesInDirectory_getFilesOfItems.induct)
  case (1 matches patterns base dirPath r es)
  then show ?case by simp
next
  case (7 matches patterns base dirPath e es)
  have d: "distinct (map fst es)" and w: "\<forall>e\<in>set es. wf_node (snd e) \<and> no_links (snd e)"
    and we: "wf_node (snd e)" and le: "no_links (snd e)" and fresh: "fst e \<notin> fst ` set es"
    using "7.prems" by auto
  have apart: "p \<notin> set (getFilesOfItems matches patterns base dirPath es)"
    if "p = (dirPath @ [fst e]) @ rel" for p rel
  proof
    assume "p \<in> set (getFilesOfItems matches patterns base dirPath es)"
    from items_head_name [OF d w this] obtain k rel' where
      "p = dirPath @ k # rel'" "k \<in> fst ` set es" by blast
    then have "k = fst e" using that by simp
    then show False using fresh \<open>k \<in> fst ` set es\<close> by simp
  qed
  show ?case
  proof (cases "snd e")
    case (File mt sz rm)
    have "distinct (getFilesOfItems matches patterns base dirPath es)"
      by (rule "7.IH"(1) [OF File d w])
    moreover have "dirPath @ [fst e] \<notin> set (getFilesOfItems matches patterns base dirPath es)"
      using apart [of "dirPath @ [fst e]" "[]"] by simp
    ultimately show ?thesis using File by simp
  next
    case (Dir r cs)
    have a: "distinct (getFilesInDirectory matches patterns base (dirPath @ [fst e]) (snd e))"
      by (rule "7.IH"(2) [OF Dir we le])
    have b: "distinct (getFilesOfItems matches patterns base dirPath es)"
      by (rule "7.IH"(3) [OF Dir d w])
    have c: "set (getFilesInDirectory matches patterns base (dirPath @ [fst e]) (snd e)) \<inter>
             set (getFilesOfItems matches patterns base dirPath es) = {}"
    proof -
      have "p \<notin> set (getFilesOfItems matches patterns base dirPath es)"
        if "p \<in> set (getFilesInDirectory matches patterns base (dirPath @ [fst e]) (snd e))" for p
      proof -
        from listed_are_files(1) [OF we le that] obtain rel where "p = (dirPath @ [fst e]) @ rel"
          by blast
        then show ?thesis by (rule apart)
      qed
      then show ?thesis by blast
    qed
    from a b c show ?thesis using Dir by simp
  next
    case Broken
    then show ?thesis by simp
  next
    case Other
    then show ?thesis using "7.IH"(4) [OF Other d w] by simp
  next
    case (Link q rm)
    then show ?thesis using le by simp
  qed
qed simp_all

text \<open>
  The listing of a directory without repeated names and without links, from its root.
\<close>

lemma listing_facts:
  assumes "wf_node t" and "no_links t"
  shows "distinct (getFilesInDirectory m ps base [] t)"
    and "p \<in> set (getFilesInDirectory m ps base [] t) \<Longrightarrow> \<exists>mt sz rm. lookup t p = Some (File mt sz rm)"
proof -
  show "distinct (getFilesInDirectory m ps base [] t)" by (rule listing_distinct(1) [OF assms])
  show "\<exists>mt sz rm. lookup t p = Some (File mt sz rm)"
    if "p \<in> set (getFilesInDirectory m ps base [] t)"
    using listed_are_files(1) [OF assms that] by auto
qed

lemma removable_file:
  "all_removable t \<Longrightarrow> lookup t p = Some (File mt sz rm) \<Longrightarrow> rm"
proof (induction t p rule: lookup.induct)
  case (1 n)
  then show ?case by simp
next
  case (2 r es k ks)
  show ?case
  proof (cases "map_of es k")
    case None
    then show ?thesis using "2.prems" by simp
  next
    case (Some c)
    then have "(k, c) \<in> set es" by (rule map_of_SomeD)
    then have "all_removable c" using "2.prems"(1) by auto
    then show ?thesis using "2.IH" [OF Some] "2.prems"(2) Some by simp
  qed
qed simp_all

subsection \<open>One directory\<close>

text \<open>
  The dry run changes nothing and logs one \<open>Would delete\<close> line per old file of the listing;
  the real run, when every file can be removed, deletes as many.
\<close>

lemma is_would_simps:
  "is_would (WouldDelete p n)" "\<not> is_would (Deleted p n)"
  by (simp_all add: is_would_def)

lemma cleanup_files_dry:
  assumes "cleanup_files True c ps (r, l, t) = (r', l', t')"
  shows "t' = t \<and> filesDeleted r' = filesDeleted r \<and>
         length (filter is_would l') = length (filter is_would l) + length (doomed c t ps)"
  using assms
proof (induction ps arbitrary: r l)
  case Nil
  then show ?case by (simp add: doomed_def)
next
  case (Cons p ps)
  show ?case
  proof (cases "stat t p")
    case None
    then have "cleanup_files True c ps (r\<lparr>errors := errors r @ [p]\<rparr>, l, t) = (r', l', t')"
      using Cons.prems by simp
    from Cons.IH [OF this] show ?thesis using None by (simp add: doomed_def)
  next
    case (Some st)
    obtain mt sz rm where st: "st = (mt, sz, rm)" by (cases st)
    show ?thesis
    proof (cases "mt < c")
      case True
      then have "cleanup_files True c ps (r\<lparr>filesFound := filesFound r + 1\<rparr>, l @ [WouldDelete p sz], t) = (r', l', t')"
        using Cons.prems Some st by (simp add: Let_def)
      from Cons.IH [OF this] show ?thesis using Some st True by (simp add: doomed_def is_would_simps)
    next
      case False
      then have "cleanup_files True c ps (r\<lparr>filesFound := filesFound r + 1\<rparr>, l, t) = (r', l', t')"
        using Cons.prems Some st by (simp add: Let_def)
      from Cons.IH [OF this] show ?thesis using Some st False by (simp add: doomed_def)
    qed
  qed
qed

lemma doomed_cong:
  assumes "\<forall>p\<in>set ps. lookup t1 p = lookup t p"
    and "\<forall>p\<in>set ps. \<exists>mt sz rm. lookup t p = Some (File mt sz rm)"
  shows "doomed c t1 ps = doomed c t ps"
proof -
  have "stat t1 p = stat t p" if "p \<in> set ps" for p
  proof -
    from that assms(2) obtain mt sz rm where "lookup t p = Some (File mt sz rm)" by blast
    moreover from that assms(1) have "lookup t1 p = lookup t p" by blast
    ultimately show ?thesis by (simp add: stat_def)
  qed
  then show ?thesis unfolding doomed_def by (intro filter_cong) simp_all
qed

lemma cleanup_files_real:
  assumes "cleanup_files False c ps (r, l, t) = (r', l', t')"
    and "distinct ps"
    and "\<forall>p\<in>set ps. \<exists>mt sz. lookup t p = Some (File mt sz True)"
  shows "filesDeleted r' = filesDeleted r + length (doomed c t ps) \<and>
         length (filter is_would l') = length (filter is_would l)"
  using assms
proof (induction ps arbitrary: r l t)
  case Nil
  then show ?case by (simp add: doomed_def)
next
  case (Cons p ps)
  obtain mt sz where f: "lookup t p = Some (File mt sz True)" using Cons.prems(3) by auto
  then have st: "stat t p = Some (mt, sz, True)" by (simp add: stat_def)
  have dps: "distinct ps" and pn: "p \<notin> set ps" using Cons.prems(2) by simp_all
  show ?case
  proof (cases "mt < c")
    case False
    then have run: "cleanup_files False c ps (r\<lparr>filesFound := filesFound r + 1\<rparr>, l, t) = (r', l', t')"
      using Cons.prems(1) st by (simp add: Let_def)
    have "\<forall>p\<in>set ps. \<exists>mt sz. lookup t p = Some (File mt sz True)" using Cons.prems(3) by simp
    from Cons.IH [OF run dps this] show ?thesis using st False by (simp add: doomed_def)
  next
    case True
    let ?t1 = "remove p t"
    have run: "cleanup_files False c ps
        (r\<lparr>filesFound := filesFound r + 1, filesDeleted := filesDeleted r + 1,
           bytesFreed := bytesFreed r + sz\<rparr>, l @ [Deleted p sz], ?t1) = (r', l', t')"
      using Cons.prems(1) st True by (simp add: Let_def)
    have same: "\<forall>q\<in>set ps. lookup ?t1 q = lookup t q"
    proof
      fix q assume q: "q \<in> set ps"
      then obtain mt' sz' where fq: "lookup t q = Some (File mt' sz' True)"
        using Cons.prems(3) by auto
      have ne: "q \<noteq> p" using q pn by auto
      have "\<not> prefix p q" using file_paths_prefix_free [OF f fq] ne by auto
      moreover have "\<not> prefix q p" using file_paths_prefix_free [OF fq f] ne by auto
      ultimately show "lookup ?t1 q = lookup t q" by (rule lookup_remove_other)
    qed
    then have files1: "\<forall>p\<in>set ps. \<exists>mt sz. lookup ?t1 p = Some (File mt sz True)"
      using Cons.prems(3) by simp
    from Cons.IH [OF run dps files1]
    have "filesDeleted r' = filesDeleted r + 1 + length (doomed c ?t1 ps) \<and>
          length (filter is_would l') = length (filter is_would l)"
      by (simp add: is_would_simps)
    moreover have "doomed c ?t1 ps = doomed c t ps"
    proof (rule doomed_cong [OF same])
      show "\<forall>p\<in>set ps. \<exists>mt sz rm. lookup t p = Some (File mt sz rm)"
      proof
        fix q assume "q \<in> set ps"
        then obtain mt' sz' where "lookup t q = Some (File mt' sz' True)"
          using Cons.prems(3) by auto
        then show "\<exists>mt sz rm. lookup t q = Some (File mt sz rm)" by blast
      qed
    qed
    ultimately show ?thesis using st True by (simp add: doomed_def)
  qed
qed

lemma cleanupDirectory_dry:
  assumes "cleanupDirectory m c rule True t = (r, l, t')"
  shows "t' = t \<and> filesDeleted r = 0 \<and> length (filter is_would l) = expected_deletions m c rule t"
  using cleanup_files_dry [of c "getFilesInDirectory m (patterns rule) t [] t" empty_result "[]" t r l t']
    assms
  by (simp add: cleanupDirectory_def expected_deletions_def empty_result_def)

lemma cleanupDirectory_real:
  assumes "cleanupDirectory m c rule False t = (r, l, t')"
    and "wf_node t" and "no_links t" and "all_removable t"
  shows "filesDeleted r = expected_deletions m c rule t \<and> length (filter is_would l) = 0"
proof -
  let ?ps = "getFilesInDirectory m (patterns rule) t [] t"
  have d: "distinct ?ps" by (rule listing_facts(1) [OF assms(2,3)])
  have f: "\<forall>p\<in>set ?ps. \<exists>mt sz. lookup t p = Some (File mt sz True)"
  proof
    fix p assume "p \<in> set ?ps"
    from listing_facts(2) [OF assms(2,3) this] obtain mt sz rm where
      l: "lookup t p = Some (File mt sz rm)" by blast
    then have "rm" using removable_file [OF assms(4)] by blast
    then show "\<exists>mt sz. lookup t p = Some (File mt sz True)" using l by auto
  qed
  have run: "cleanup_files False c ?ps (empty_result, [], t) = (r, l, t')"
    using assms(1) by (simp add: cleanupDirectory_def)
  from cleanup_files_real [OF run d f] show ?thesis
    by (simp add: expected_deletions_def empty_result_def)
qed

subsection \<open>One rule, and the rules of a run\<close>

lemma expected_dirs_cong:
  "\<forall>d\<in>set ds. files1 d = files d \<Longrightarrow> expected_dirs env rule files1 ds k = expected_dirs env rule files ds k"
  by (induction ds arbitrary: k) (simp_all split: option.splits)

lemma cleanup_dirs_dry:
  assumes "cleanup_dirs env rule True ds (r, l, files, k) = (r', l', files', k')"
  shows "files' = files \<and> k' = snd (expected_dirs env rule files ds k) \<and>
         filesDeleted r' = filesDeleted r \<and>
         length (filter is_would l') = length (filter is_would l) + fst (expected_dirs env rule files ds k)"
  using assms
proof (induction ds arbitrary: r l k)
  case Nil
  then show ?case by simp
next
  case (Cons d ds)
  show ?case
  proof (cases "files d")
    case None
    then have "cleanup_dirs env rule True ds (r, l, files, k) = (r', l', files', k')"
      using Cons.prems by simp
    from Cons.IH [OF this] show ?thesis using None by simp
  next
    case (Some t)
    obtain dr dl t1 where cd: "cleanupDirectory (matchesPattern env) (cutoffDate env k rule) rule True t = (dr, dl, t1)"
      by (cases "cleanupDirectory (matchesPattern env) (cutoffDate env k rule) rule True t") auto
    note dry = cleanupDirectory_dry [OF cd]
    have same: "files(d \<mapsto> t1) = files" using dry Some by (simp add: fun_upd_idem)
    have "cleanup_dirs env rule True ds (add_result r dr, l @ dl, files, Suc k) = (r', l', files', k')"
      using Cons.prems Some cd same by simp
    from Cons.IH [OF this] show ?thesis using Some dry by (simp add: add_result_def)
  qed
qed

lemma cleanup_dirs_real:
  assumes "cleanup_dirs env rule False ds (r, l, files, k) = (r', l', files', k')"
    and "distinct ds"
    and "\<forall>d\<in>set ds. \<forall>t. files d = Some t \<longrightarrow> wf_node t \<and> no_links t \<and> all_removable t"
  shows "k' = snd (expected_dirs env rule files ds k) \<and>
         filesDeleted r' = filesDeleted r + fst (expected_dirs env rule files ds k) \<and>
         (\<forall>d. d \<notin> set ds \<longrightarrow> files' d = files d)"
  using assms
proof (induction ds arbitrary: r l files k)
  case Nil
  then show ?case by simp
next
  case (Cons d ds)
  have dds: "distinct ds" and dn: "d \<notin> set ds" using Cons.prems(2) by simp_all
  show ?case
  proof (cases "files d")
    case None
    then have run: "cleanup_dirs env rule False ds (r, l, files, k) = (r', l', files', k')"
      using Cons.prems(1) by simp
    have "\<forall>d\<in>set ds. \<forall>t. files d = Some t \<longrightarrow> wf_node t \<and> no_links t \<and> all_removable t"
      using Cons.prems(3) by simp
    from Cons.IH [OF run dds this] show ?thesis using None by simp
  next
    case (Some t)
    obtain dr dl t1 where cd: "cleanupDirectory (matchesPattern env) (cutoffDate env k rule) rule False t = (dr, dl, t1)"
      by (cases "cleanupDirectory (matchesPattern env) (cutoffDate env k rule) rule False t") auto
    have wt: "wf_node t" "no_links t" "all_removable t" using Cons.prems(3) Some by simp_all
    note real = cleanupDirectory_real [OF cd wt]
    let ?files1 = "files(d \<mapsto> t1)"
    have run: "cleanup_dirs env rule False ds (add_result r dr, l @ dl, ?files1, Suc k) = (r', l', files', k')"
      using Cons.prems(1) Some cd by simp
    have agree: "\<forall>x\<in>set ds. ?files1 x = files x" using dn by auto
    then have ok1: "\<forall>d\<in>set ds. \<forall>t. ?files1 d = Some t \<longrightarrow> wf_node t \<and> no_links t \<and> all_removable t"
      using Cons.prems(3) by simp
    have ex: "expected_dirs env rule ?files1 ds (Suc k) = expected_dirs env rule files ds (Suc k)"
      using agree by (rule expected_dirs_cong)
    note ih = Cons.IH [OF run dds ok1, unfolded ex]
    have a: "k' = snd (expected_dirs env rule files (d # ds) k)" using ih Some by simp
    have b: "filesDeleted r' = filesDeleted r + fst (expected_dirs env rule files (d # ds) k)"
      using ih Some real by (simp add: add_result_def)
    have c: "\<forall>x. x \<notin> set (d # ds) \<longrightarrow> files' x = files x" using ih by simp
    from a b c show ?thesis by blast
  qed
qed

lemma map_of_set_result: "map_of (set_result res k v) = (map_of res)(k \<mapsto> v)"
  by (induction res) (auto simp: fun_eq_iff)

lemma rule_deleted_set_result:
  "rule_deleted n (set_result res k v) = (if n = k then filesDeleted v else rule_deleted n res)"
  by (simp add: rule_deleted_def map_of_set_result)

lemma would_delete_count_append:
  "would_delete_count n (l1 @ l2) = would_delete_count n l1 + would_delete_count n l2"
  by (simp add: would_delete_count_def)

lemma would_delete_count_tagged:
  "would_delete_count n (map (\<lambda>l. (k, l)) ls) = (if n = k then length (filter is_would ls) else 0)"
  unfolding would_delete_count_def by (induction ls) auto

lemma cleanup_rules_dry_files:
  assumes "cleanup_rules env table True ns (res, l, files, k) = (res', l', files', k')"
  shows "files' = files"
  using assms
proof (induction ns arbitrary: res l k)
  case Nil
  then show ?case by simp
next
  case (Cons n ns)
  show ?case
  proof (cases "table n")
    case None
    then show ?thesis using Cons by simp
  next
    case (Some rule)
    show ?thesis
    proof (cases "enabled rule")
      case False
      then show ?thesis using Cons Some by simp
    next
      case True
      obtain rr rl rf rk where cr: "cleanupRule env rule True (files, k) = (rr, rl, rf, rk)"
        by (cases "cleanupRule env rule True (files, k)") auto
      then have "rf = files" using cleanup_dirs_dry [of env rule "directories rule" empty_result "[]" files k rr rl rf rk]
        by (simp add: cleanupRule_def)
      then have "cleanup_rules env table True ns
          (set_result res n rr, l @ map (\<lambda>x. (n, x)) rl, files, rk) = (res', l', files', k')"
        using Cons.prems Some True cr by simp
      then show ?thesis by (rule Cons.IH)
    qed
  qed
qed

lemma cleanup_rules_dry_deleted:
  assumes "cleanup_rules env table True ns (res, l, files, k) = (res', l', files', k')"
    and "\<forall>m. rule_deleted m res = 0"
  shows "rule_deleted n res' = 0"
  using assms
proof (induction ns arbitrary: res l files k)
  case Nil
  then show ?case by simp
next
  case (Cons a ns)
  show ?case
  proof (cases "table a")
    case None
    then have "cleanup_rules env table True ns (res, l, files, k) = (res', l', files', k')"
      using Cons.prems(1) by simp
    then show ?thesis using Cons.prems(2) by (rule Cons.IH)
  next
    case (Some rule)
    show ?thesis
    proof (cases "enabled rule")
      case False
      then have "cleanup_rules env table True ns (res, l, files, k) = (res', l', files', k')"
        using Cons.prems(1) Some by simp
      then show ?thesis using Cons.prems(2) by (rule Cons.IH)
    next
      case True
      obtain rr rl rf rk where cr: "cleanupRule env rule True (files, k) = (rr, rl, rf, rk)"
        by (cases "cleanupRule env rule True (files, k)") auto
      then have z: "filesDeleted rr = 0"
        using cleanup_dirs_dry [of env rule "directories rule" empty_result "[]" files k rr rl rf rk]
        by (simp add: cleanupRule_def empty_result_def)
      have run: "cleanup_rules env table True ns
          (set_result res a rr, l @ map (\<lambda>x. (a, x)) rl, rf, rk) = (res', l', files', k')"
        using Cons.prems(1) Some True cr by simp
      have "\<forall>m. rule_deleted m (set_result res a rr) = 0"
        using Cons.prems(2) z by (simp add: rule_deleted_set_result)
      with run show ?thesis by (rule Cons.IH)
    qed
  qed
qed

lemma cleanup_rules_sim:
  assumes "cleanup_rules env table True ns (resD, logD, filesD, k) = (resD', logD', filesD', kD')"
    and "cleanup_rules env table False ns (resR, logR, filesR, k) = (resR', logR', filesR', kR')"
    and "distinct ns"
    and "distinct (concat (map (rule_directories table) ns))"
    and "\<forall>d\<in>set (concat (map (rule_directories table) ns)).
           filesR d = filesD d \<and> (\<forall>t. filesD d = Some t \<longrightarrow> wf_node t \<and> no_links t \<and> all_removable t)"
    and "\<forall>n. would_delete_count n logD = rule_deleted n resR"
    and "\<forall>n\<in>set ns. would_delete_count n logD = 0"
  shows "kD' = kR' \<and> (\<forall>n. would_delete_count n logD' = rule_deleted n resR')"
  using assms
proof (induction ns arbitrary: resD logD k resR logR filesR)
  case Nil
  then show ?case by simp
next
  case (Cons n ns)
  have dns: "distinct ns" and nn: "n \<notin> set ns" using Cons.prems(3) by simp_all
  have ddirs: "distinct (concat (map (rule_directories table) ns))"
    and dhead: "distinct (rule_directories table n)"
    and disj: "set (rule_directories table n) \<inter> set (concat (map (rule_directories table) ns)) = {}"
    using Cons.prems(4) by simp_all
  have okrest: "\<forall>d\<in>set (concat (map (rule_directories table) ns)).
           filesR d = filesD d \<and> (\<forall>t. filesD d = Some t \<longrightarrow> wf_node t \<and> no_links t \<and> all_removable t)"
    using Cons.prems(5) by auto
  have okhead: "\<forall>d\<in>set (rule_directories table n).
           filesR d = filesD d \<and> (\<forall>t. filesD d = Some t \<longrightarrow> wf_node t \<and> no_links t \<and> all_removable t)"
    using Cons.prems(5) by auto
  have zero_rest: "\<forall>m\<in>set ns. would_delete_count m logD = 0" using Cons.prems(7) by simp
  have zero_n: "would_delete_count n logD = 0" using Cons.prems(7) by simp
  show ?case
  proof (cases "table n = None \<or> (\<exists>rule. table n = Some rule \<and> \<not> enabled rule)")
    case True
    then have d: "cleanup_rules env table True ns (resD, logD, filesD, k) = (resD', logD', filesD', kD')"
      and r: "cleanup_rules env table False ns (resR, logR, filesR, k) = (resR', logR', filesR', kR')"
      using Cons.prems(1,2) by auto
    from Cons.IH [OF d r dns ddirs okrest Cons.prems(6) zero_rest] show ?thesis .
  next
    case False
    then obtain rule where rule: "table n = Some rule" "enabled rule" by auto
    then have dirs: "rule_directories table n = directories rule" by (simp add: rule_directories_def)
    obtain rd ld fd kd where crd: "cleanupRule env rule True (filesD, k) = (rd, ld, fd, kd)"
      by (cases "cleanupRule env rule True (filesD, k)") auto
    obtain rr lr fr kr where crr: "cleanupRule env rule False (filesR, k) = (rr, lr, fr, kr)"
      by (cases "cleanupRule env rule False (filesR, k)") auto
    have dry: "fd = filesD \<and> kd = snd (expected_dirs env rule filesD (directories rule) k) \<and>
         length (filter is_would ld) = fst (expected_dirs env rule filesD (directories rule) k)"
      using cleanup_dirs_dry [of env rule "directories rule" empty_result "[]" filesD k rd ld fd kd] crd
      by (simp add: cleanupRule_def)
    have agree: "\<forall>d\<in>set (directories rule). filesR d = filesD d" using okhead dirs by simp
    have okR: "\<forall>d\<in>set (directories rule). \<forall>t. filesR d = Some t \<longrightarrow> wf_node t \<and> no_links t \<and> all_removable t"
      using okhead dirs by simp
    have exR: "expected_dirs env rule filesR (directories rule) k = expected_dirs env rule filesD (directories rule) k"
      using agree by (rule expected_dirs_cong)
    have real: "kr = snd (expected_dirs env rule filesD (directories rule) k) \<and>
         filesDeleted rr = fst (expected_dirs env rule filesD (directories rule) k) \<and>
         (\<forall>d. d \<notin> set (directories rule) \<longrightarrow> fr d = filesR d)"
      using cleanup_dirs_real [of env rule "directories rule" empty_result "[]" filesR k rr lr fr kr] crr
        dhead dirs okR exR
      by (simp add: cleanupRule_def empty_result_def)
    have keq: "kd = kr" using dry real by simp
    have d: "cleanup_rules env table True ns
          (set_result resD n rd, logD @ map (\<lambda>x. (n, x)) ld, filesD, kr) = (resD', logD', filesD', kD')"
      using Cons.prems(1) rule crd dry keq by simp
    have r: "cleanup_rules env table False ns
          (set_result resR n rr, logR @ map (\<lambda>x. (n, x)) lr, fr, kr) = (resR', logR', filesR', kR')"
      using Cons.prems(2) rule crr by simp
    have okrest': "\<forall>d\<in>set (concat (map (rule_directories table) ns)).
           fr d = filesD d \<and> (\<forall>t. filesD d = Some t \<longrightarrow> wf_node t \<and> no_links t \<and> all_removable t)"
    proof
      fix d assume d: "d \<in> set (concat (map (rule_directories table) ns))"
      then have "d \<notin> set (directories rule)" using disj dirs by auto
      then have e: "fr d = filesR d" using real by simp
      from okrest d have "filesR d = filesD d \<and> (\<forall>t. filesD d = Some t \<longrightarrow> wf_node t \<and> no_links t \<and> all_removable t)"
        by blast
      with e show "fr d = filesD d \<and> (\<forall>t. filesD d = Some t \<longrightarrow> wf_node t \<and> no_links t \<and> all_removable t)"
        by simp
    qed
    have inv: "\<forall>m. would_delete_count m (logD @ map (\<lambda>x. (n, x)) ld) = rule_deleted m (set_result resR n rr)"
    proof
      fix m
      show "would_delete_count m (logD @ map (\<lambda>x. (n, x)) ld) = rule_deleted m (set_result resR n rr)"
        using Cons.prems(6) zero_n dry real
        by (simp add: would_delete_count_append would_delete_count_tagged rule_deleted_set_result)
    qed
    have zero': "\<forall>m\<in>set ns. would_delete_count m (logD @ map (\<lambda>x. (n, x)) ld) = 0"
      using zero_rest nn by (auto simp: would_delete_count_append would_delete_count_tagged)
    from Cons.IH [OF d r dns ddirs okrest' inv zero'] show ?thesis .
  qed
qed

subsection \<open>The table of the constructor\<close>

text \<open>No directory belongs to two rules of the table, and no rule lists one twice.\<close>

lemma default_rule_cases:
  assumes "default_cleanupRules n = Some rule"
  shows "n = ''logs'' \<and> directories rule = [''logs'', ''automation/logs''] \<or>
         n = ''temp'' \<and> directories rule = [''temp'', ''tmp'', ''automation/temp''] \<or>
         n = ''backups'' \<and> directories rule = [''backups'', ''automation/backups''] \<or>
         n = ''reports'' \<and> directories rule = [''reports'', ''automation/reports''] \<or>
         n = ''notifications'' \<and> directories rule = [''notifications'', ''automation/notifications''] \<or>
         n = ''deployments'' \<and> directories rule = [''deployments'', ''automation/deployments'']"
proof -
  consider "n = ''logs''" | "n = ''temp''" | "n = ''backups''" | "n = ''reports''"
    | "n = ''notifications''" | "n = ''deployments''"
    | "n \<noteq> ''logs''" "n \<noteq> ''temp''" "n \<noteq> ''backups''" "n \<noteq> ''reports''"
      "n \<noteq> ''notifications''" "n \<noteq> ''deployments''"
    by blast
  then show ?thesis
  proof cases
    case 1
    then have "directories rule = [''logs'', ''automation/logs'']"
      using assms by (simp add: default_cleanupRules_def) auto
    then show ?thesis using 1 by simp
  next
    case 2
    then have "directories rule = [''temp'', ''tmp'', ''automation/temp'']"
      using assms by (simp add: default_cleanupRules_def) auto
    then show ?thesis using 2 by simp
  next
    case 3
    then have "directories rule = [''backups'', ''automation/backups'']"
      using assms by (simp add: default_cleanupRules_def) auto
    then show ?thesis using 3 by simp
  next
    case 4
    then have "directories rule = [''reports'', ''automation/reports'']"
      using assms by (simp add: default_cleanupRules_def) auto
    then show ?thesis using 4 by simp
  next
    case 5
    then have "directories rule = [''notifications'', ''automation/notifications'']"
      using assms by (simp add: default_cleanupRules_def) auto
    then show ?thesis using 5 by simp
  next
    case 6
    then have "directories rule = [''deployments'', ''automation/deployments'']"
      using assms by (simp add: default_cleanupRules_def) auto
    then show ?thesis using 6 by simp
  next
    case 7
    then have "default_cleanupRules n = None" by (simp add: default_cleanupRules_def)
    then show ?thesis using assms by simp
  qed
qed

lemma default_directories_owner:
  assumes "d \<in> set (rule_directories default_cleanupRules n)"
  shows "directory_rule d = n"
proof -
  have "\<exists>rule. default_cleanupRules n = Some rule \<and> d \<in> set (directories rule)"
    using assms
    by (cases "default_cleanupRules n") (auto simp: rule_directories_def split: if_splits)
  then obtain rule where r: "default_cleanupRules n = Some rule" "d \<in> set (directories rule)"
    by blast
  from default_rule_cases [OF r(1)] show ?thesis
  proof (elim disjE conjE)
    assume n: "n = ''logs''" and "directories rule = [''logs'', ''automation/logs'']"
    then consider "d = ''logs''" | "d = ''automation/logs''" using r(2) by auto
    then show ?thesis using n by cases (simp_all add: directory_rule_def)
  next
    assume n: "n = ''temp''" and "directories rule = [''temp'', ''tmp'', ''automation/temp'']"
    then consider "d = ''temp''" | "d = ''tmp''" | "d = ''automation/temp''" using r(2) by auto
    then show ?thesis using n by cases (simp_all add: directory_rule_def)
  next
    assume n: "n = ''backups''" and "directories rule = [''backups'', ''automation/backups'']"
    then consider "d = ''backups''" | "d = ''automation/backups''" using r(2) by auto
    then show ?thesis using n by cases (simp_all add: directory_rule_def)
  next
    assume n: "n = ''reports''" and "directories rule = [''reports'', ''automation/reports'']"
    then consider "d = ''reports''" | "d = ''automation/reports''" using r(2) by auto
    then show ?thesis using n by cases (simp_all add: directory_rule_def)
  next
    assume n: "n = ''notifications''"
      and "directories rule = [''notifications'', ''automation/notifications'']"
    then consider "d = ''notifications''" | "d = ''automation/notifications''" using r(2) by auto
    then show ?thesis using n by cases (simp_all add: directory_rule_def)
  next
    assume n: "n = ''deployments''"
      and "directories rule = [''deployments'', ''automation/deployments'']"
    then consider "d = ''deployments''" | "d = ''automation/deployments''" using r(2) by auto
    then show ?thesis using n by cases (simp_all add: directory_rule_def)
  qed
qed

lemma default_directories_distinct:
  "distinct (rule_directories default_cleanupRules n)"
proof (cases "default_cleanupRules n")
  case None
  then show ?thesis by (simp add: rule_directories_def)
next
  case (Some rule)
  from default_rule_cases [OF Some] have "distinct (directories rule)" by auto
  then show ?thesis using Some by (simp add: rule_directories_def)
qed

lemma default_visited_distinct:
  "distinct ns \<Longrightarrow> distinct (concat (map (rule_directories default_cleanupRules) ns))"
proof (induction ns)
  case Nil
  then show ?case by simp
next
  case (Cons n ns)
  have "set (rule_directories default_cleanupRules n) \<inter>
        set (concat (map (rule_directories default_cleanupRules) ns)) = {}"
  proof (rule ccontr)
    assume "\<not> ?thesis"
    then obtain d m where d: "d \<in> set (rule_directories default_cleanupRules n)"
      "m \<in> set ns" "d \<in> set (rule_directories default_cleanupRules m)" by auto
    have "directory_rule d = n" by (rule default_directories_owner [OF d(1)])
    moreover have "directory_rule d = m" by (rule default_directories_owner [OF d(3)])
    ultimately have "n = m" by simp
    then show False using Cons.prems d(2) by simp
  qed
  then show ?case using Cons default_directories_distinct by simp
qed

subsection \<open>The two runs\<close>

lemma performCleanup_dry_files:
  "cs_files (snd (performCleanup env \<lparr>co_rules = rules, co_dryRun = True\<rparr> s)) = cs_files s"
proof (cases "cs_isInitialized s")
  case False
  then show ?thesis by (simp add: performCleanup_def)
next
  case True
  obtain res l files k where
    cr: "cleanup_rules env (cleanupRules s) True rules ([], [], cs_files s, 0) = (res, l, files, k)"
    by (cases "cleanup_rules env (cleanupRules s) True rules ([], [], cs_files s, 0)") auto
  from cleanup_rules_dry_files [OF cr] have "files = cs_files s" .
  then show ?thesis using True cr by (simp add: performCleanup_def Let_def)
qed

lemma files_deleted_Inr:
  "files_deleted n (Inr c) = rule_deleted n (c_results c)"
  by (simp add: files_deleted_def rule_deleted_def)

lemma performCleanup_dry_log:
  assumes "cs_isInitialized s"
    and "cleanup_rules env (cleanupRules s) True rules ([], [], cs_files s, 0) = (res, l, files, k)"
  shows "cs_log (snd (performCleanup env \<lparr>co_rules = rules, co_dryRun = True\<rparr> s)) = cs_log s @ l"
  using assms by (simp add: performCleanup_def Let_def)

lemma performCleanup_real_result:
  assumes "cs_isInitialized s"
    and "cleanup_rules env (cleanupRules s) False rules ([], [], cs_files s, 0) = (res, l, files, k)"
  shows "files_deleted n (fst (performCleanup env \<lparr>co_rules = rules, co_dryRun = False\<rparr> s)) =
         rule_deleted n res"
  using assms by (simp add: performCleanup_def Let_def files_deleted_Inr)

lemma performCleanup_dry_deleted:
  "files_deleted n (fst (performCleanup env \<lparr>co_rules = rules, co_dryRun = True\<rparr> s)) = 0"
proof (cases "cs_isInitialized s")
  case False
  then show ?thesis by (simp add: performCleanup_def files_deleted_def)
next
  case True
  obtain res l files k where
    cr: "cleanup_rules env (cleanupRules s) True rules ([], [], cs_files s, 0) = (res, l, files, k)"
    by (cases "cleanup_rules env (cleanupRules s) True rules ([], [], cs_files s, 0)") auto
  have "\<forall>m. rule_deleted m [] = 0" by (simp add: rule_deleted_def)
  with cr have "rule_deleted n res = 0" by (rule cleanup_rules_dry_deleted)
  then show ?thesis using True cr by (simp add: performCleanup_def Let_def files_deleted_Inr)
qed

text \<open>
  Claim C3, as the code has it. The dry run deletes nothing. It does not count what it would
  delete (\<^verbatim>\<open>filesDeleted\<close> stays 0 for every rule in its record): what it reports is one
  \<^verbatim>\<open>[DRY RUN] Would delete\<close> line per file. On an initialised service with the rule table of
  the constructor, for rule names without repetition and directories that hold no symbolic
  link and in which every file can be removed, the number of those lines logged for a rule is
  the \<^verbatim>\<open>filesDeleted\<close> of the rule in the record of the real run on the same directories
  with the same clock readings.
\<close>

theorem dry_run_predicts_real_run:
  assumes "cs_isInitialized s"
    and "cleanupRules s = default_cleanupRules"
    and "distinct rules"
    and "\<forall>d t. cs_files s d = Some t \<longrightarrow> wf_node t \<and> no_links t \<and> all_removable t"
  shows "cs_files (snd (performCleanup env \<lparr>co_rules = rules, co_dryRun = True\<rparr> s)) = cs_files s \<and>
         files_deleted n (fst (performCleanup env \<lparr>co_rules = rules, co_dryRun = True\<rparr> s)) = 0 \<and>
         would_delete_count n
             (cs_log (snd (performCleanup env \<lparr>co_rules = rules, co_dryRun = True\<rparr> s))) =
           would_delete_count n (cs_log s) +
           files_deleted n (fst (performCleanup env \<lparr>co_rules = rules, co_dryRun = False\<rparr> s))"
proof -
  obtain resD logD filesD kD where
    d: "cleanup_rules env (cleanupRules s) True rules ([], [], cs_files s, 0) = (resD, logD, filesD, kD)"
    by (cases "cleanup_rules env (cleanupRules s) True rules ([], [], cs_files s, 0)") auto
  obtain resR logR filesR kR where
    r: "cleanup_rules env (cleanupRules s) False rules ([], [], cs_files s, 0) = (resR, logR, filesR, kR)"
    by (cases "cleanup_rules env (cleanupRules s) False rules ([], [], cs_files s, 0)") auto
  have dd: "distinct (concat (map (rule_directories (cleanupRules s)) rules))"
    using assms(2,3) by (simp add: default_visited_distinct)
  have ok: "\<forall>d\<in>set (concat (map (rule_directories (cleanupRules s)) rules)).
           cs_files s d = cs_files s d \<and>
           (\<forall>t. cs_files s d = Some t \<longrightarrow> wf_node t \<and> no_links t \<and> all_removable t)"
    using assms(4) by blast
  have inv: "\<forall>m. would_delete_count m [] = rule_deleted m []"
    by (simp add: would_delete_count_def rule_deleted_def)
  have zero: "\<forall>m\<in>set rules. would_delete_count m [] = 0"
    by (simp add: would_delete_count_def)
  from cleanup_rules_sim [OF d r assms(3) dd ok inv zero]
  have "would_delete_count n logD = rule_deleted n resR" by blast
  moreover have "cs_log (snd (performCleanup env \<lparr>co_rules = rules, co_dryRun = True\<rparr> s)) =
      cs_log s @ logD"
    using assms(1) d by (rule performCleanup_dry_log)
  moreover have "files_deleted n (fst (performCleanup env \<lparr>co_rules = rules, co_dryRun = False\<rparr> s)) =
      rule_deleted n resR"
    using assms(1) r by (rule performCleanup_real_result)
  ultimately show ?thesis
    by (simp add: performCleanup_dry_files performCleanup_dry_deleted would_delete_count_append)
qed

lemma ex_cleaner_dry:
  "cs_log (snd (performCleanup ex_cleanup_env \<lparr>co_rules = [''temp'', ''logs''], co_dryRun = True\<rparr> ex_cleaner)) =
     [(''temp'', WouldDelete [''temp_old''] 2048), (''temp'', WouldDelete [''cache'', ''temp_session''] 512)]"
  by (simp add: performCleanup_def ex_cleaner_def ex_cleanup_env_def default_cleanupRules_def
      cleanupRule_def cleanupDirectory_def cutoffDate_def ex_temp_tree_def ex_matches_def
      stat_def empty_result_def add_result_def Let_def)

theorem dry_run_predicts_real_run_witness:
  "cs_isInitialized ex_cleaner \<and> cleanupRules ex_cleaner = default_cleanupRules \<and>
   distinct [''temp'', ''logs''] \<and> cs_files ex_cleaner = [''temp'' \<mapsto> ex_temp_tree] \<and>
   wf_node ex_temp_tree \<and> no_links ex_temp_tree \<and> all_removable ex_temp_tree \<and>
   cs_files (snd (performCleanup ex_cleanup_env \<lparr>co_rules = [''temp'', ''logs''], co_dryRun = True\<rparr> ex_cleaner)) =
     cs_files ex_cleaner \<and>
   files_deleted ''temp''
     (fst (performCleanup ex_cleanup_env \<lparr>co_rules = [''temp'', ''logs''], co_dryRun = True\<rparr> ex_cleaner)) = 0 \<and>
   would_delete_count ''temp''
     (cs_log (snd (performCleanup ex_cleanup_env \<lparr>co_rules = [''temp'', ''logs''], co_dryRun = True\<rparr> ex_cleaner))) = 2 \<and>
   files_deleted ''temp''
     (fst (performCleanup ex_cleanup_env \<lparr>co_rules = [''temp'', ''logs''], co_dryRun = False\<rparr> ex_cleaner)) = 2"
proof -
  have h1: "cs_isInitialized ex_cleaner" by (simp add: ex_cleaner_def)
  have h2: "cleanupRules ex_cleaner = default_cleanupRules" by (simp add: ex_cleaner_def)
  have h3: "distinct [''temp'', ''logs'']" by simp
  have f: "cs_files ex_cleaner = [''temp'' \<mapsto> ex_temp_tree]" by (simp add: ex_cleaner_def)
  have t: "wf_node ex_temp_tree" "no_links ex_temp_tree" "all_removable ex_temp_tree"
    by (simp_all add: ex_temp_tree_def)
  have h4: "\<forall>d t. cs_files ex_cleaner d = Some t \<longrightarrow> wf_node t \<and> no_links t \<and> all_removable t"
    using t by (simp add: f)
  have l: "would_delete_count ''temp'' (cs_log ex_cleaner) = 0"
    by (simp add: ex_cleaner_def would_delete_count_def)
  have c: "would_delete_count ''temp''
     (cs_log (snd (performCleanup ex_cleanup_env \<lparr>co_rules = [''temp'', ''logs''], co_dryRun = True\<rparr> ex_cleaner))) = 2"
    by (simp add: ex_cleaner_dry would_delete_count_def is_would_def)
  from dry_run_predicts_real_run [OF h1 h2 h3 h4, of ex_cleanup_env "''temp''"] l c
  have "cs_files (snd (performCleanup ex_cleanup_env \<lparr>co_rules = [''temp'', ''logs''], co_dryRun = True\<rparr> ex_cleaner)) =
     cs_files ex_cleaner \<and>
     files_deleted ''temp''
     (fst (performCleanup ex_cleanup_env \<lparr>co_rules = [''temp'', ''logs''], co_dryRun = True\<rparr> ex_cleaner)) = 0 \<and>
     files_deleted ''temp''
     (fst (performCleanup ex_cleanup_env \<lparr>co_rules = [''temp'', ''logs''], co_dryRun = False\<rparr> ex_cleaner)) = 2"
    by simp
  with h1 h2 h3 f t c show ?thesis by blast
qed

text \<open>
  The claim as stated (for every directory state) fails on a file that \<^verbatim>\<open>fs.remove\<close> cannot
  delete: the dry run logs it as one it would delete, the real run catches the error of
  \<^verbatim>\<open>fs.remove\<close> (line 209), records it and deletes nothing.
\<close>

theorem dry_run_counts_undeletable_file_counterexample:
  "would_delete_count ''temp''
     (cs_log (snd (performCleanup ex_cleanup_env \<lparr>co_rules = [''temp''], co_dryRun = True\<rparr> ex_cleaner_locked))) = 1 \<and>
   files_deleted ''temp''
     (fst (performCleanup ex_cleanup_env \<lparr>co_rules = [''temp''], co_dryRun = False\<rparr> ex_cleaner_locked)) = 0 \<and>
   fst (performCleanup ex_cleanup_env \<lparr>co_rules = [''temp''], co_dryRun = False\<rparr> ex_cleaner_locked) =
     Inr \<lparr>c_id = ''cleanup_1'', c_rules = [''temp''], c_dryRun = False,
          c_results = [(''temp'', \<lparr>filesFound = 1, filesDeleted = 0, bytesFreed = 0,
                                   errors = [[''temp_old'']]\<rparr>)],
          c_duration = 12\<rparr>"
  by (simp add: performCleanup_def ex_cleaner_locked_def ex_cleanup_env_def default_cleanupRules_def
      cleanupRule_def cleanupDirectory_def cutoffDate_def ex_locked_tree_def ex_matches_def
      stat_def empty_result_def add_result_def would_delete_count_def is_would_def
      files_deleted_def Let_def)

text \<open>
  It fails on a symbolic link as well, though every \<^verbatim>\<open>fs.remove\<close> succeeds:
  \<^verbatim>\<open>fs.stat\<close> (lines 201 and 238) follows links, so a file and a link to it are listed as
  two files and the dry run logs both; the real run removes the file, and the
  \<^verbatim>\<open>fs.stat\<close> of the link then throws, which the loop records as an error.
\<close>

lemma linked_file_counted_twice:
  "would_delete_count ''temp''
     (cs_log (snd (performCleanup ex_cleanup_env \<lparr>co_rules = [''temp''], co_dryRun = True\<rparr> ex_cleaner_linked))) = 2 \<and>
   fst (performCleanup ex_cleanup_env \<lparr>co_rules = [''temp''], co_dryRun = False\<rparr> ex_cleaner_linked) =
     Inr \<lparr>c_id = ''cleanup_1'', c_rules = [''temp''], c_dryRun = False,
          c_results = [(''temp'', \<lparr>filesFound = 1, filesDeleted = 1, bytesFreed = 2048,
                                   errors = [[''temp_b'']]\<rparr>)],
          c_duration = 12\<rparr> \<and>
   cs_files (snd (performCleanup ex_cleanup_env \<lparr>co_rules = [''temp''], co_dryRun = False\<rparr> ex_cleaner_linked)) =
     [''temp'' \<mapsto> Dir True [(''temp_b'', Link [''temp_a''] True)]]"
  by (simp add: performCleanup_def ex_cleaner_linked_def ex_cleanup_env_def default_cleanupRules_def
      cleanupRule_def cleanupDirectory_def cutoffDate_def ex_linked_tree_def ex_matches_def
      stat_def link_target_def empty_result_def add_result_def would_delete_count_def is_would_def
      files_deleted_def Let_def)

text \<open>
  And it fails when the list of rules names one twice: the dry run logs every old file
  once per pass, the real run deletes them in the first pass, and the result of the second
  pass, which finds nothing left to delete, replaces the one of the first.
\<close>

lemma repeated_rule_counted_twice:
  "would_delete_count ''temp''
     (cs_log (snd (performCleanup ex_cleanup_env \<lparr>co_rules = [''temp'', ''temp''], co_dryRun = True\<rparr> ex_cleaner))) = 4 \<and>
   files_deleted ''temp''
     (fst (performCleanup ex_cleanup_env \<lparr>co_rules = [''temp'', ''temp''], co_dryRun = False\<rparr> ex_cleaner)) = 0"
  by (simp add: performCleanup_def ex_cleaner_def ex_cleanup_env_def default_cleanupRules_def
      cleanupRule_def cleanupDirectory_def cutoffDate_def ex_temp_tree_def ex_matches_def
      stat_def empty_result_def add_result_def would_delete_count_def is_would_def
      files_deleted_def Let_def)

end
